theory Spec2Isabelle
  imports Main
begin

unbundle bit_operations_syntax

section \<open>Lua values as lualdap.c sees them through the Lua C API\<close>

text \<open>
  The structs of lualdap.c.  A pointer is an option: \<open>None\<close> is \<open>NULL\<close>.
  \<open>ld\<close> is the \<open>LDAP *\<close> handle of a connection, \<open>conn\<close> the registry reference a
  search object holds to its connection.
\<close>

record conn_data =
  version :: int
  ld :: "nat option"

record search_data =
  conn :: int
  msgid :: int

text \<open>A full userdata block together with the metatable that tags it.\<close>

datatype udata = UConn conn_data | USearch search_data

datatype cfunction = F_result_message | F_next_message

text \<open>
  A value in a stack slot.  \<open>LNone\<close> is an index above the stack top (\<open>LUA_TNONE\<close>).
  A table is the list of its key/value pairs in the order \<open>lua_next\<close> visits them.
  Numbers are the integral ones; the code never looks at a number's value except
  through Lua's own conversions, which are parameters below.  A userdata is an
  address into the heap of the state, a C closure carries its upvalues.
\<close>

datatype lua_value =
    LNone
  | LNil
  | LBool bool
  | LNumber int
  | LString string
  | LTable "(lua_value \<times> lua_value) list"
  | LUserdata nat
  | LCClosure cfunction "lua_value list"
  | LFunction

text \<open>
  What the Lua and LDAP libraries compute and lualdap.c only calls:
  \<open>number2str\<close> is the string \<open>lua_tolstring\<close> makes of a number,
  \<open>str2number\<close> is the number a string converts to, if it does (\<open>lua_isnumber\<close> and
  \<open>lua_tonumber\<close> on a string), \<open>ldap_err2string\<close> is libldap's table of messages.
\<close>

record extern =
  number2str :: "int \<Rightarrow> string"
  str2number :: "string \<Rightarrow> int option"
  ldap_err2string :: "int \<Rightarrow> string"

fun lua_typename :: "lua_value \<Rightarrow> string" where
  "lua_typename LNone = ''no value''"
| "lua_typename LNil = ''nil''"
| "lua_typename (LBool _) = ''boolean''"
| "lua_typename (LNumber _) = ''number''"
| "lua_typename (LString _) = ''string''"
| "lua_typename (LTable _) = ''table''"
| "lua_typename (LUserdata _) = ''userdata''"
| "lua_typename (LCClosure _ _) = ''function''"
| "lua_typename LFunction = ''function''"

fun lua_isnil :: "lua_value \<Rightarrow> bool" where
  "lua_isnil LNil = True"
| "lua_isnil _ = False"

fun lua_isboolean :: "lua_value \<Rightarrow> bool" where
  "lua_isboolean (LBool _) = True"
| "lua_isboolean _ = False"

text \<open>\<open>lua_toboolean\<close>: 0 for false and nil (and for no value), 1 otherwise.\<close>

fun lua_toboolean :: "lua_value \<Rightarrow> int" where
  "lua_toboolean (LBool b) = (if b then 1 else 0)"
| "lua_toboolean LNil = 0"
| "lua_toboolean LNone = 0"
| "lua_toboolean _ = 1"

text \<open>\<open>lua_isstring\<close> is true of strings and of numbers.\<close>

fun lua_isstring :: "lua_value \<Rightarrow> bool" where
  "lua_isstring (LString _) = True"
| "lua_isstring (LNumber _) = True"
| "lua_isstring _ = False"

text \<open>\<open>lua_isnumber\<close> is true of numbers and of strings that convert to one.\<close>

fun lua_isnumber :: "extern \<Rightarrow> lua_value \<Rightarrow> bool" where
  "lua_isnumber E (LNumber _) = True"
| "lua_isnumber E (LString s) = (str2number E s \<noteq> None)"
| "lua_isnumber E _ = False"

fun lua_istable :: "lua_value \<Rightarrow> bool" where
  "lua_istable (LTable _) = True"
| "lua_istable _ = False"

text \<open>\<open>lua_tolstring\<close>: the bytes and their length, \<open>NULL\<close> for what is no string or number.\<close>

fun lua_tolstring :: "extern \<Rightarrow> lua_value \<Rightarrow> string option" where
  "lua_tolstring E (LString s) = Some s"
| "lua_tolstring E (LNumber n) = Some (number2str E n)"
| "lua_tolstring E _ = None"

text \<open>
  A \<open>char *\<close> used as a C string ends at its first zero byte, whatever the length of
  the Lua string it points into.
\<close>

definition cstr :: "string \<Rightarrow> string" where
  "cstr s = takeWhile (\<lambda>c. c \<noteq> CHR 0x00) s"

definition lua_tostring :: "extern \<Rightarrow> lua_value \<Rightarrow> string option" where
  "lua_tostring E v = map_option cstr (lua_tolstring E v)"

text \<open>\<open>lua_tonumber\<close> and \<open>lua_tointeger\<close>: 0 for what is no number.\<close>

fun lua_tonumber :: "extern \<Rightarrow> lua_value \<Rightarrow> int" where
  "lua_tonumber E (LNumber n) = n"
| "lua_tonumber E (LString s) = (case str2number E s of None \<Rightarrow> 0 | Some n \<Rightarrow> n)"
| "lua_tonumber E _ = 0"

text \<open>\<open>lua_touserdata\<close>: the address of the block, \<open>NULL\<close> for what is no userdata.\<close>

fun lua_touserdata :: "lua_value \<Rightarrow> nat option" where
  "lua_touserdata (LUserdata p) = Some p"
| "lua_touserdata _ = None"

text \<open>\<open>lua_getfield\<close> on a table without metatable: the value at a string key, or nil.\<close>

fun lua_getfield :: "lua_value \<Rightarrow> string \<Rightarrow> lua_value" where
  "lua_getfield (LTable t) k = (case map_of t (LString k) of None \<Rightarrow> LNil | Some v \<Rightarrow> v)"
| "lua_getfield _ k = LNil"

text \<open>\<open>lua_rawgeti\<close> pushes \<open>t[i]\<close>, nil when the key is absent.\<close>

fun lua_rawgeti :: "lua_value \<Rightarrow> int \<Rightarrow> lua_value" where
  "lua_rawgeti (LTable t) i = (case map_of t (LNumber i) of None \<Rightarrow> LNil | Some v \<Rightarrow> v)"
| "lua_rawgeti _ i = LNil"

text \<open>
  \<open>lua_rawlen\<close> of a table is a border: an \<open>n\<close> with \<open>t[n]\<close> present (or \<open>n = 0\<close>) and
  \<open>t[n + 1]\<close> nil.  A sequence has one border, its length; for a table with holes Lua
  may return any border, and the model returns the first.  The search needs at most as
  many steps as the table has pairs.
\<close>

fun border :: "lua_value \<Rightarrow> nat \<Rightarrow> nat \<Rightarrow> nat" where
  "border t 0 n = n"
| "border t (Suc fuel) n =
     (if lua_isnil (lua_rawgeti t (int n + 1)) then n else border t fuel (Suc n))"

fun lua_rawlen :: "lua_value \<Rightarrow> nat" where
  "lua_rawlen (LTable t) = border (LTable t) (length t) 0"
| "lua_rawlen (LString s) = length s"
| "lua_rawlen _ = 0"

text \<open>The argument at stack index \<open>i\<close> (from 1) of a C function called with \<open>args\<close>.\<close>

definition arg :: "lua_value list \<Rightarrow> nat \<Rightarrow> lua_value" where
  "arg args i = (if 1 \<le> i \<and> i \<le> length args then args ! (i - 1) else LNone)"

section \<open>Errors and results\<close>

text \<open>
  A C function either raises (\<open>luaL_error\<close>, \<open>luaL_argerror\<close>: a \<open>longjmp\<close> out of the
  call) or returns the values it pushed.  The raised errors, with the message each
  stands for (\<open>LUALDAP_PREFIX\<close> is \<open>"LuaLDAP: "\<close>):
  \<^item> \<open>ArgError i m\<close>: \<open>luaL_argcheck\<close> failed on argument \<open>i\<close> with the extra message \<open>m\<close>;
  \<^item> \<open>CheckError i t\<close>: \<open>luaL_checkudata\<close>/\<open>luaL_checkstring\<close> found no \<open>t\<close> at argument \<open>i\<close>;
  \<^item> \<open>LuaError m\<close>: \<open>luaL_error\<close> with the literal message \<open>m\<close>;
  \<^item> \<open>ValueError n t\<close>: "LuaLDAP: invalid value of attribute `n' (t)";
  \<^item> \<open>ForgottenOperation p\<close>: "LuaLDAP: forgotten operation on argument #p";
  \<^item> \<open>InvalidScope s\<close>: "LuaLDAP: invalid search scope `s'";
  \<^item> \<open>InvalidValueNo i\<close>: "LuaLDAP: invalid value #i";
  \<^item> \<open>OptionError n t g\<close>: "LuaLDAP: invalid value on option `n': t expected, got g";
  \<^item> \<open>SubmitError m\<close>: "LuaLDAP: m", raised by search when the submission fails.

  \<open>Fault\<close> is no Lua error: the C code reads through a pointer that is \<open>NULL\<close> or
  points to a block of another type, which the language leaves undefined.
\<close>

datatype lua_error =
    ArgError nat string
  | CheckError nat string
  | LuaError string
  | ValueError string string
  | ForgottenOperation int
  | InvalidScope string
  | InvalidValueNo int
  | OptionError string string string
  | SubmitError string
  | Fault

definition LUALDAP_PREFIX :: string where
  "LUALDAP_PREFIX = ''LuaLDAP: ''"

definition too_many_attributes :: lua_error where
  "too_many_attributes = LuaError (LUALDAP_PREFIX @ ''too many attributes'')"

definition too_many_values :: lua_error where
  "too_many_values = LuaError (LUALDAP_PREFIX @ ''too many values'')"

text \<open>\<open>faildirect\<close>: the soft failure, two return values.\<close>

definition faildirect :: "string \<Rightarrow> lua_value list" where
  "faildirect errmsg = [LNil, LString errmsg]"

section \<open>The attribute structure and its builder\<close>

definition LUALDAP_MAX_ATTRS :: nat where
  "LUALDAP_MAX_ATTRS = 100"

definition LUALDAP_ARRAY_VALUES_SIZE :: nat where
  "LUALDAP_ARRAY_VALUES_SIZE = 2 * LUALDAP_MAX_ATTRS"

definition LUALDAP_MAX_VALUES :: nat where
  "LUALDAP_MAX_VALUES = LUALDAP_ARRAY_VALUES_SIZE div 2"

text \<open>The operation codes of ldap.h (RFC 1823) and the ones lualdap.c makes of them.\<close>

definition LDAP_MOD_ADD :: int where "LDAP_MOD_ADD = 0x0000"
definition LDAP_MOD_DELETE :: int where "LDAP_MOD_DELETE = 0x0001"
definition LDAP_MOD_REPLACE :: int where "LDAP_MOD_REPLACE = 0x0002"
definition LDAP_MOD_BVALUES :: int where "LDAP_MOD_BVALUES = 0x0080"

definition LUALDAP_MOD_ADD :: int where
  "LUALDAP_MOD_ADD = LDAP_MOD_ADD OR LDAP_MOD_BVALUES"

definition LUALDAP_MOD_DEL :: int where
  "LUALDAP_MOD_DEL = LDAP_MOD_DELETE OR LDAP_MOD_BVALUES"

definition LUALDAP_MOD_REP :: int where
  "LUALDAP_MOD_REP = LDAP_MOD_REPLACE OR LDAP_MOD_BVALUES"

definition LUALDAP_NO_OP :: int where
  "LUALDAP_NO_OP = 0"

record BerValue =
  bv_len :: nat
  bv_val :: string

text \<open>
  \<open>mod_bvalues\<close> points into the \<open>values\<close> array of the structure that holds the
  modification: \<open>Some i\<close> is \<open>&values[i]\<close>.
\<close>

record LDAPMod =
  mod_op :: int
  mod_type :: string
  mod_bvalues :: "nat option"

text \<open>
  \<open>attrs_data\<close>: three arrays of fixed size with their fill counters.  \<open>attrs[k]\<close> is
  \<open>Some j\<close> for \<open>&mods[j]\<close>, \<open>values[k]\<close> is \<open>Some j\<close> for \<open>&bvals[j]\<close>.  The field
  \<open>values\<close> of the C struct is \<open>values'\<close> here.
\<close>

record attrs_data =
  attrs :: "nat option list"
  mods :: "LDAPMod list"
  ai :: nat
  values' :: "nat option list"
  vi :: nat
  bvals :: "BerValue list"
  bi :: nat

text \<open>
  The structure is a local of the calling C function, so it starts with whatever the
  stack holds: any contents, in arrays of the declared sizes.
\<close>

definition frame_ok :: "attrs_data \<Rightarrow> bool" where
  "frame_ok a \<longleftrightarrow>
     length (attrs a) = LUALDAP_MAX_ATTRS + 1 \<and>
     length (mods a) = LUALDAP_MAX_ATTRS \<and>
     length (values' a) = LUALDAP_ARRAY_VALUES_SIZE \<and>
     length (bvals a) = LUALDAP_MAX_VALUES"

definition A_init :: "attrs_data \<Rightarrow> attrs_data" where
  "A_init a = a\<lparr>ai := 0, attrs := (attrs a)[0 := None],
                vi := 0, values' := (values' a)[0 := None], bi := 0\<rparr>"

definition value_error :: "string \<Rightarrow> lua_value \<Rightarrow> lua_error" where
  "value_error name v = ValueError name (lua_typename v)"

text \<open>
  \<open>A_setbval\<close> stores the string on top of the stack, \<open>v\<close>, in the next free
  \<open>bvals\<close> element and returns its address.
\<close>

definition A_setbval :: "extern \<Rightarrow> attrs_data \<Rightarrow> string \<Rightarrow> lua_value \<Rightarrow> lua_error + attrs_data \<times> nat" where
  "A_setbval E a n v =
     (if bi a \<ge> LUALDAP_MAX_VALUES then Inl too_many_values
      else if \<not> lua_isstring v then Inl (value_error n v)
      else (case lua_tolstring E v of
              None \<Rightarrow> Inl (value_error n v)
            | Some s \<Rightarrow>
                Inr (a\<lparr>bvals := (bvals a)[bi a := \<lparr>bv_len = length s, bv_val = s\<rparr>],
                       bi := bi a + 1\<rparr>, bi a)))"

text \<open>
  \<open>A_setval\<close> and \<open>A_nullval\<close> return the address of the slot they fill; no caller
  uses it, and the model returns the structure only.
\<close>

definition A_setval :: "extern \<Rightarrow> attrs_data \<Rightarrow> string \<Rightarrow> lua_value \<Rightarrow> lua_error + attrs_data" where
  "A_setval E a n v =
     (if vi a \<ge> LUALDAP_ARRAY_VALUES_SIZE then Inl too_many_values
      else (case A_setbval E a n v of
              Inl e \<Rightarrow> Inl e
            | Inr (a', p) \<Rightarrow>
                Inr (a'\<lparr>values' := (values' a')[vi a' := Some p], vi := vi a' + 1\<rparr>)))"

definition A_nullval :: "attrs_data \<Rightarrow> lua_error + attrs_data" where
  "A_nullval a =
     (if vi a \<ge> LUALDAP_ARRAY_VALUES_SIZE then Inl too_many_values
      else Inr (a\<lparr>values' := (values' a)[vi a := None], vi := vi a + 1\<rparr>))"

text \<open>The loop of \<open>A_tab2val\<close> over the elements \<open>lua_rawgeti\<close> pushed.\<close>

fun A_setvals :: "extern \<Rightarrow> attrs_data \<Rightarrow> string \<Rightarrow> lua_value list \<Rightarrow> lua_error + attrs_data" where
  "A_setvals E a n [] = Inr a"
| "A_setvals E a n (v # vs) =
     (case A_setval E a n v of Inl e \<Rightarrow> Inl e | Inr a' \<Rightarrow> A_setvals E a' n vs)"

text \<open>The elements \<open>t[1]\<close> to \<open>t[n]\<close>, \<open>n\<close> the raw length of \<open>t\<close>.\<close>

definition elements :: "lua_value \<Rightarrow> lua_value list" where
  "elements t = map (\<lambda>i. lua_rawgeti t (int i)) [1 ..< Suc (lua_rawlen t)]"

text \<open>
  \<open>A_tab2val\<close> stores the value \<open>v\<close> of an attribute: \<open>true\<close> is no value list at all
  (\<open>NULL\<close>), a string one value, a table its elements; the list is closed by a
  \<open>NULL\<close> slot.  It returns the address of the first slot.
\<close>

definition A_tab2val :: "extern \<Rightarrow> attrs_data \<Rightarrow> string \<Rightarrow> lua_value \<Rightarrow> lua_error + attrs_data \<times> nat option" where
  "A_tab2val E a name v =
     (let ret = vi a in
      if lua_isboolean v \<and> lua_toboolean v = 1 then Inr (a, None)
      else (case (if lua_isstring v then A_setval E a name v
                  else if lua_istable v then A_setvals E a name (elements v)
                  else Inl (value_error name v)) of
              Inl e \<Rightarrow> Inl e
            | Inr a1 \<Rightarrow>
                (case A_nullval a1 of
                   Inl e \<Rightarrow> Inl e
                 | Inr a2 \<Rightarrow> Inr (a2, Some ret))))"

definition A_setmod :: "extern \<Rightarrow> attrs_data \<Rightarrow> int \<Rightarrow> string \<Rightarrow> lua_value \<Rightarrow> lua_error + attrs_data" where
  "A_setmod E a op name v =
     (if ai a \<ge> LUALDAP_MAX_ATTRS then Inl too_many_attributes
      else
        (let a0 = a\<lparr>mods := (mods a)[ai a := (mods a ! ai a)\<lparr>mod_op := op, mod_type := name\<rparr>]\<rparr>
         in case A_tab2val E a0 name v of
              Inl e \<Rightarrow> Inl e
            | Inr (a1, p) \<Rightarrow>
                Inr (a1\<lparr>mods := (mods a1)[ai a1 := (mods a1 ! ai a1)\<lparr>mod_bvalues := p\<rparr>],
                        attrs := (attrs a1)[ai a1 := Some (ai a1)],
                        ai := ai a1 + 1\<rparr>)))"

text \<open>
  \<open>A_tab2mod\<close> walks the table with \<open>lua_next\<close>; a pair is an attribute when its key is
  a string and not a number (for \<open>lua_isnumber\<close>: neither a number nor a string that
  converts to one).  The name handed to \<open>A_setmod\<close> is a \<open>char *\<close>.
\<close>

definition attr_key :: "extern \<Rightarrow> lua_value \<Rightarrow> bool" where
  "attr_key E k \<longleftrightarrow> \<not> lua_isnumber E k \<and> lua_isstring k"

fun A_tab2mod_pairs :: "extern \<Rightarrow> attrs_data \<Rightarrow> (lua_value \<times> lua_value) list \<Rightarrow> int \<Rightarrow> lua_error + attrs_data" where
  "A_tab2mod_pairs E a [] op = Inr a"
| "A_tab2mod_pairs E a ((k, v) # kvs) op =
     (if attr_key E k
      then (case A_setmod E a op (the (lua_tostring E k)) v of
              Inl e \<Rightarrow> Inl e
            | Inr a' \<Rightarrow> A_tab2mod_pairs E a' kvs op)
      else A_tab2mod_pairs E a kvs op)"

fun A_tab2mod :: "extern \<Rightarrow> attrs_data \<Rightarrow> lua_value \<Rightarrow> int \<Rightarrow> lua_error + attrs_data" where
  "A_tab2mod E a (LTable kvs) op = A_tab2mod_pairs E a kvs op"
| "A_tab2mod E a _ op = Inr a"

definition A_lastattr :: "attrs_data \<Rightarrow> lua_error + attrs_data" where
  "A_lastattr a =
     (if ai a \<ge> LUALDAP_MAX_ATTRS then Inl too_many_attributes
      else Inr (a\<lparr>attrs := (attrs a)[ai a := None], ai := ai a + 1\<rparr>))"


section \<open>What the LDAP library reads from the structure\<close>

text \<open>
  \<open>ldap_add_ext\<close> and \<open>ldap_modify_ext\<close> get \<open>attrs.attrs\<close>: an array of pointers to
  modifications that ends at the first \<open>NULL\<close>; each modification has a \<open>mod_bvalues\<close>
  that is \<open>NULL\<close> or an array of pointers to values that ends at the first \<open>NULL\<close>.
  A value is \<open>bv_len\<close> bytes at \<open>bv_val\<close>.
\<close>

record wire_mod =
  w_op :: int
  w_type :: string
  w_vals :: "string list option"

definition until_null :: "'a option list \<Rightarrow> 'a list" where
  "until_null ps = map the (takeWhile (\<lambda>p. p \<noteq> None) ps)"

definition bytes_of :: "BerValue \<Rightarrow> string" where
  "bytes_of b = take (bv_len b) (bv_val b)"

definition view_values :: "attrs_data \<Rightarrow> nat \<Rightarrow> string list" where
  "view_values a s = map (\<lambda>j. bytes_of (bvals a ! j)) (until_null (drop s (values' a)))"

definition view_mod :: "attrs_data \<Rightarrow> LDAPMod \<Rightarrow> wire_mod" where
  "view_mod a m =
     \<lparr>w_op = mod_op m, w_type = mod_type m, w_vals = map_option (view_values a) (mod_bvalues m)\<rparr>"

definition view_attrs :: "attrs_data \<Rightarrow> wire_mod list" where
  "view_attrs a = map (\<lambda>j. view_mod a (mods a ! j)) (until_null (attrs a))"

section \<open>The state of a call and the library calls it makes\<close>

text \<open>
  What lualdap.c asks libldap about a received message (chain): the type of its first
  message, what \<open>ldap_parse_result\<close> returns and stores (\<open>err\<close>, \<open>mdn\<close>, \<open>msg\<close>), the
  distinguished name \<open>ldap_get_dn\<close> gives, and the attributes of the entry in the order
  of \<open>ldap_first_attribute\<close>/\<open>ldap_next_attribute\<close>, each with its values.
\<close>

record LDAPMessage =
  msgtype :: int
  parse_rc :: int
  parse_err :: int
  parse_mdn :: "string option"
  parse_msg :: "string option"
  entry_dn :: "string option"
  entry_attrs :: "(string \<times> BerValue list) list"

text \<open>
  \<open>ldap_result\<close> answers a return code; \<open>p_res\<close> is what the pointer \<open>res\<close> holds after
  the call.  The library stores a message there only when it has received one, and then
  the return code is the type of that message, a positive number.  On 0 (the timeout)
  and on - 1 (an error) no message is stored: \<open>res\<close> is \<open>NULL\<close> or left as it was, so that no
  message stands behind \<open>p_res\<close> then.
\<close>

record poll_reply =
  p_rc :: int
  p_res :: LDAPMessage

text \<open>
  The calls into libldap that matter to a caller, in the order they are made, with
  the arguments lualdap.c passes; the first argument is the \<open>LDAP *\<close> handle.
  \<open>Call_search_ext\<close> has base, scope, filter, attrs, attrsonly, timeout and sizelimit;
  \<open>Call_parse_result\<close> the message and \<open>freeit\<close>.
\<close>

datatype ldap_call =
    Call_add_ext "nat option" string "wire_mod list"
  | Call_modify_ext "nat option" string "wire_mod list"
  | Call_search_ext "nat option" "string option" int "string option" "string list" int
      "(int \<times> int) option" int
  | Call_result "nat option" int
  | Call_parse_result "nat option" LDAPMessage int
  | Call_msgfree LDAPMessage
  | Call_unbind "nat option"

text \<open>
  The Lua state a call works on: the userdata blocks (\<open>heap\<close>), the registry slots
  \<open>luaL_ref\<close> hands out, and the log of library calls.
\<close>

record lua_State =
  heap :: "nat \<Rightarrow> udata option"
  registry :: "int \<Rightarrow> lua_value option"
  calls :: "ldap_call list"

definition log_call :: "ldap_call \<Rightarrow> lua_State \<Rightarrow> lua_State" where
  "log_call c st = st\<lparr>calls := calls st @ [c]\<rparr>"

definition LUALDAP_CONNECTION_METATABLE :: string where
  "LUALDAP_CONNECTION_METATABLE = ''LuaLDAP connection''"

definition LUALDAP_SEARCH_METATABLE :: string where
  "LUALDAP_SEARCH_METATABLE = ''LuaLDAP search''"

definition connection_closed :: string where
  "connection_closed = LUALDAP_PREFIX @ ''LDAP connection is closed''"

definition search_closed :: string where
  "search_closed = LUALDAP_PREFIX @ ''LDAP search is closed''"

text \<open>\<open>luaL_checkudata (L, 1, LUALDAP_CONNECTION_METATABLE)\<close>\<close>

definition check_connection :: "lua_State \<Rightarrow> lua_value list \<Rightarrow> lua_error + conn_data" where
  "check_connection st args =
     (case arg args 1 of
        LUserdata p \<Rightarrow>
          (case heap st p of
             Some (UConn c) \<Rightarrow> Inr c
           | _ \<Rightarrow> Inl (CheckError 1 LUALDAP_CONNECTION_METATABLE))
      | _ \<Rightarrow> Inl (CheckError 1 LUALDAP_CONNECTION_METATABLE))"

definition getconnection :: "lua_State \<Rightarrow> lua_value list \<Rightarrow> lua_error + conn_data" where
  "getconnection st args =
     (case check_connection st args of
        Inl e \<Rightarrow> Inl e
      | Inr c \<Rightarrow> if ld c = None then Inl (ArgError 1 connection_closed) else Inr c)"

text \<open>\<open>luaL_checkstring\<close>, its result used as a \<open>char *\<close>.\<close>

definition luaL_checkstring :: "extern \<Rightarrow> lua_value list \<Rightarrow> nat \<Rightarrow> lua_error + string" where
  "luaL_checkstring E args i =
     (case lua_tostring E (arg args i) of
        None \<Rightarrow> Inl (CheckError i ''string'')
      | Some s \<Rightarrow> Inr s)"

text \<open>Result codes and message types of ldap.h (RFC 4511).\<close>

definition LDAP_SUCCESS :: int where "LDAP_SUCCESS = 0x00"
definition LDAP_COMPARE_FALSE :: int where "LDAP_COMPARE_FALSE = 0x05"
definition LDAP_COMPARE_TRUE :: int where "LDAP_COMPARE_TRUE = 0x06"
definition LDAP_RES_SEARCH_ENTRY :: int where "LDAP_RES_SEARCH_ENTRY = 0x64"
definition LDAP_RES_SEARCH_RESULT :: int where "LDAP_RES_SEARCH_RESULT = 0x65"
definition LDAP_RES_MODIFY :: int where "LDAP_RES_MODIFY = 0x67"
definition LDAP_RES_ADD :: int where "LDAP_RES_ADD = 0x69"
definition LDAP_RES_SEARCH_REFERENCE :: int where "LDAP_RES_SEARCH_REFERENCE = 0x73"

text \<open>
  \<open>create_future\<close>: a failed submission is a soft failure, a successful one a closure
  over the connection (the value at stack index \<open>ci\<close>), the message id and the
  expected result code.
\<close>

definition create_future :: "extern \<Rightarrow> lua_value list \<Rightarrow> int \<Rightarrow> nat \<Rightarrow> int \<Rightarrow> int \<Rightarrow> lua_value list" where
  "create_future E args rc ci mid code =
     (if rc \<noteq> LDAP_SUCCESS then faildirect (ldap_err2string E rc)
      else [LCClosure F_result_message [arg args ci, LNumber mid, LNumber code]])"

section \<open>add and modify\<close>

text \<open>
  \<open>frame\<close> is the uninitialised local \<open>attrs\<close>, \<open>reply\<close> the pair \<open>(rc, msgid)\<close> that the
  submission function of the library answers.
\<close>

definition lualdap_add :: "extern \<Rightarrow> attrs_data \<Rightarrow> int \<times> int \<Rightarrow> lua_State \<Rightarrow> lua_value list
    \<Rightarrow> (lua_error + lua_value list) \<times> lua_State" where
  "lualdap_add E frame reply st args =
     (case getconnection st args of
        Inl e \<Rightarrow> (Inl e, st)
      | Inr c \<Rightarrow>
     (case luaL_checkstring E args 2 of
        Inl e \<Rightarrow> (Inl e, st)
      | Inr dn \<Rightarrow>
     (case (if lua_istable (arg args 3)
            then A_tab2mod E (A_init frame) (arg args 3) LUALDAP_MOD_ADD
            else Inr (A_init frame)) of
        Inl e \<Rightarrow> (Inl e, st)
      | Inr a1 \<Rightarrow>
     (case A_lastattr a1 of
        Inl e \<Rightarrow> (Inl e, st)
      | Inr a2 \<Rightarrow>
          (Inr (create_future E args (fst reply) 1 (snd reply) LDAP_RES_ADD),
           log_call (Call_add_ext (ld c) dn (view_attrs a2)) st)))))"

text \<open>\<open>op2code\<close> looks at the first byte of a C string.\<close>

fun op2code :: "string option \<Rightarrow> int" where
  "op2code None = LUALDAP_NO_OP"
| "op2code (Some []) = LUALDAP_NO_OP"
| "op2code (Some (c # _)) =
     (if c = CHR ''+'' then LUALDAP_MOD_ADD
      else if c = CHR ''-'' then LUALDAP_MOD_DEL
      else if c = CHR ''='' then LUALDAP_MOD_REP
      else LUALDAP_NO_OP)"

text \<open>
  The loop of \<open>lualdap_modify\<close>: \<open>gs\<close> are the arguments from index \<open>param\<close> on; it
  ends at the first argument that is no table.
\<close>

fun modify_loop :: "extern \<Rightarrow> attrs_data \<Rightarrow> lua_value list \<Rightarrow> int \<Rightarrow> lua_error + attrs_data" where
  "modify_loop E a [] param = Inr a"
| "modify_loop E a (g # gs) param =
     (if lua_istable g
      then (let op = op2code (lua_tostring E (lua_rawgeti g 1)) in
            if op = LUALDAP_NO_OP then Inl (ForgottenOperation param)
            else (case A_tab2mod E a g op of
                    Inl e \<Rightarrow> Inl e
                  | Inr a' \<Rightarrow> modify_loop E a' gs (param + 1)))
      else Inr a)"

definition lualdap_modify :: "extern \<Rightarrow> attrs_data \<Rightarrow> int \<times> int \<Rightarrow> lua_State \<Rightarrow> lua_value list
    \<Rightarrow> (lua_error + lua_value list) \<times> lua_State" where
  "lualdap_modify E frame reply st args =
     (case getconnection st args of
        Inl e \<Rightarrow> (Inl e, st)
      | Inr c \<Rightarrow>
     (case luaL_checkstring E args 2 of
        Inl e \<Rightarrow> (Inl e, st)
      | Inr dn \<Rightarrow>
     (case modify_loop E (A_init frame) (drop 2 args) 3 of
        Inl e \<Rightarrow> (Inl e, st)
      | Inr a1 \<Rightarrow>
     (case A_lastattr a1 of
        Inl e \<Rightarrow> (Inl e, st)
      | Inr a2 \<Rightarrow>
          (Inr (create_future E args (fst reply) 1 (snd reply) LDAP_RES_MODIFY),
           log_call (Call_modify_ext (ld c) dn (view_attrs a2)) st)))))"


section \<open>Fetching the result of an operation\<close>

text \<open>
  \<open>result_message\<close> is the closure \<open>create_future\<close> returns; \<open>ups\<close> are its upvalues
  and \<open>reply\<close> is what \<open>ldap_result\<close> answers.  \<open>ldap_parse_result\<close> is called with
  \<open>freeit = 1\<close> and so releases the message.
\<close>

definition result_message :: "extern \<Rightarrow> poll_reply \<Rightarrow> lua_State \<Rightarrow> lua_value list
    \<Rightarrow> (lua_error + lua_value list) \<times> lua_State" where
  "result_message E reply st ups =
     (case lua_touserdata (arg ups 1) of
        None \<Rightarrow> (Inl Fault, st)
      | Some p \<Rightarrow>
     (case heap st p of
        Some (UConn c) \<Rightarrow>
          (let mid = lua_tonumber E (arg ups 2) in
           if ld c = None then (Inl (ArgError 1 connection_closed), st)
           else
             (let st1 = log_call (Call_result (ld c) mid) st;
                  rc = p_rc reply;
                  res = p_res reply
              in if rc = 0
                 then (Inr (faildirect (LUALDAP_PREFIX @ ''result timeout expired'')), st1)
                 else if rc < 0
                 then (Inr (faildirect (LUALDAP_PREFIX @ ''result error'')),
                       log_call (Call_msgfree res) st1)
                 else
                   (let st2 = log_call (Call_parse_result (ld c) res 1) st1;
                        err = parse_err res;
                        msg = parse_msg res
                    in if parse_rc res \<noteq> LDAP_SUCCESS
                       then (Inr (faildirect (ldap_err2string E (parse_rc res))), st2)
                       else if err = LDAP_SUCCESS \<or> err = LDAP_COMPARE_TRUE
                       then (Inr [LBool True], st2)
                       else if err = LDAP_COMPARE_FALSE
                       then (Inr [LBool False], st2)
                       else (Inr [LNil,
                                  LString (LUALDAP_PREFIX @ ldap_err2string E err @
                                    (case msg of None \<Rightarrow> [] | Some m \<Rightarrow> '' ('' @ m @ '')''))],
                             st2))))
      | _ \<Rightarrow> (Inl Fault, st)))"

text \<open>\<open>lualdap_close\<close>: unbind once, nothing when already closed.\<close>

definition lualdap_close :: "lua_State \<Rightarrow> lua_value list \<Rightarrow> (lua_error + lua_value list) \<times> lua_State" where
  "lualdap_close st args =
     (case check_connection st args of
        Inl e \<Rightarrow> (Inl e, st)
      | Inr c \<Rightarrow>
          if ld c = None then (Inr [], st)
          else (case lua_touserdata (arg args 1) of
                  None \<Rightarrow> (Inl Fault, st)
                | Some p \<Rightarrow>
                    (Inr [LNumber 1],
                     (log_call (Call_unbind (ld c)) st)
                       \<lparr>heap := (heap st)(p := Some (UConn (c\<lparr>ld := None\<rparr>)))\<rparr>)))"

section \<open>Searching\<close>

definition LUA_NOREF :: int where
  "LUA_NOREF = - 2"

definition LDAP_SCOPE_BASE :: int where "LDAP_SCOPE_BASE = 0x0000"
definition LDAP_SCOPE_ONELEVEL :: int where "LDAP_SCOPE_ONELEVEL = 0x0001"
definition LDAP_SCOPE_SUBTREE :: int where "LDAP_SCOPE_SUBTREE = 0x0002"
definition LDAP_SCOPE_DEFAULT :: int where "LDAP_SCOPE_DEFAULT = - 1"
definition LDAP_NO_LIMIT :: int where "LDAP_NO_LIMIT = 0"

definition option_error :: "string \<Rightarrow> string \<Rightarrow> lua_value \<Rightarrow> lua_error" where
  "option_error name ty v = OptionError name ty (lua_typename v)"

text \<open>The \<open>...tabparam\<close> functions read a field of the table at stack index 2.\<close>

definition strtabparam :: "extern \<Rightarrow> lua_value list \<Rightarrow> string \<Rightarrow> string option \<Rightarrow> lua_error + string option" where
  "strtabparam E args name def =
     (let v = lua_getfield (arg args 2) name in
      if lua_isnil v then Inr def
      else if lua_isstring v then Inr (lua_tostring E v)
      else Inl (option_error name ''string'' v))"

definition longtabparam :: "extern \<Rightarrow> lua_value list \<Rightarrow> string \<Rightarrow> int \<Rightarrow> lua_error + int" where
  "longtabparam E args name def =
     (let v = lua_getfield (arg args 2) name in
      if lua_isnil v then Inr def
      else if lua_isnumber E v then Inr (lua_tonumber E v)
      else Inl (option_error name ''number'' v))"

definition numbertabparam :: "extern \<Rightarrow> lua_value list \<Rightarrow> string \<Rightarrow> int \<Rightarrow> lua_error + int" where
  "numbertabparam E args name def =
     (let v = lua_getfield (arg args 2) name in
      if lua_isnil v then Inr def
      else if lua_isnumber E v then Inr (lua_tonumber E v)
      else Inl (option_error name ''number'' v))"

definition booltabparam :: "lua_value list \<Rightarrow> string \<Rightarrow> int \<Rightarrow> lua_error + int" where
  "booltabparam args name def =
     (let v = lua_getfield (arg args 2) name in
      if lua_isnil v then Inr def
      else if lua_isboolean v then Inr (lua_toboolean v)
      else Inl (option_error name ''boolean'' v))"

text \<open>\<open>string2scope\<close> looks at the first byte of a C string.\<close>

definition string2scope :: "string option \<Rightarrow> lua_error + int" where
  "string2scope s =
     (case s of
        None \<Rightarrow> Inr LDAP_SCOPE_DEFAULT
      | Some s' \<Rightarrow>
          (case cstr s' of
             [] \<Rightarrow> Inr LDAP_SCOPE_DEFAULT
           | c # _ \<Rightarrow>
               if c = CHR ''b'' then Inr LDAP_SCOPE_BASE
               else if c = CHR ''o'' then Inr LDAP_SCOPE_ONELEVEL
               else if c = CHR ''s'' then Inr LDAP_SCOPE_SUBTREE
               else Inl (InvalidScope (cstr s'))))"

text \<open>
  \<open>get_attrs_param\<close> fills the array \<open>attrs\<close> of \<open>lualdap_search\<close>, a local of
  \<open>LUALDAP_MAX_ATTRS\<close> pointers with any contents (\<open>arr\<close>).  The loop runs over the
  elements \<open>t[1]\<close> to \<open>t[n]\<close>; \<open>i\<close> is the C index.
\<close>

fun get_attrs_loop :: "extern \<Rightarrow> string option list \<Rightarrow> nat \<Rightarrow> lua_value list \<Rightarrow> lua_error + string option list" where
  "get_attrs_loop E arr i [] = Inr arr"
| "get_attrs_loop E arr i (v # vs) =
     (if lua_isstring v then get_attrs_loop E (arr[i := lua_tostring E v]) (Suc i) vs
      else Inl (InvalidValueNo (int i + 1)))"

definition get_attrs_param :: "extern \<Rightarrow> string option list \<Rightarrow> lua_value list \<Rightarrow> lua_error + string option list" where
  "get_attrs_param E arr args =
     (let v = lua_getfield (arg args 2) ''attrs'' in
      if lua_isstring v then Inr (arr[0 := lua_tostring E v, 1 := None])
      else if \<not> lua_istable v then Inr (arr[0 := None])
      else (let n = lua_rawlen v in
            if LUALDAP_MAX_ATTRS < n + 1 then Inl (LuaError (LUALDAP_PREFIX @ ''too many arguments''))
            else (case get_attrs_loop E arr 0 (elements v) of
                    Inl e \<Rightarrow> Inl e
                  | Inr arr' \<Rightarrow> Inr (arr'[n := None]))))"

text \<open>
  \<open>get_timeout_param\<close>: no timeout unless the option is positive.  The source reads the
  option as a double; the numbers of this model are integers, so the seconds are whole
  and \<open>tv_usec\<close> is 0.  A timeout with a fraction, and the rounding of an integer beyond
  \<open>2 ^ 53\<close>, are outside the model.
\<close>

definition get_timeout_param :: "extern \<Rightarrow> lua_value list \<Rightarrow> lua_error + (int \<times> int) option" where
  "get_timeout_param E args =
     (case numbertabparam E args ''timeout'' 0 of
        Inl e \<Rightarrow> Inl e
      | Inr t \<Rightarrow> if t \<le> 0 then Inr None else Inr (Some (t, 1000000 * (t - t))))"

text \<open>
  \<open>create_search\<close>: a new userdata block at the address \<open>p\<close> that \<open>lua_newuserdata\<close>
  returns, holding the reference \<open>r\<close> that \<open>luaL_ref\<close> returns for the connection.
\<close>

definition create_search :: "lua_State \<Rightarrow> lua_value list \<Rightarrow> nat \<Rightarrow> int \<Rightarrow> nat \<Rightarrow> int \<Rightarrow> lua_State" where
  "create_search st args p r conn_index mid =
     st\<lparr>heap := (heap st)(p := Some (USearch \<lparr>conn = r, msgid = mid\<rparr>)),
        registry := (registry st)(r := Some (arg args conn_index))\<rparr>"

text \<open>
  \<open>lualdap_search\<close> stores the \<open>long\<close> that \<open>longtabparam\<close> returns in the \<open>int\<close> variable
  \<open>sizelimit\<close>: the low 32 bits, read as a signed number.
\<close>

definition int_of_long :: "int \<Rightarrow> int" where
  "int_of_long n = (n + 2 ^ 31) mod 2 ^ 32 - 2 ^ 31"

definition lualdap_search :: "extern \<Rightarrow> string option list \<Rightarrow> int \<times> int \<Rightarrow> nat \<Rightarrow> int \<Rightarrow> lua_State
    \<Rightarrow> lua_value list \<Rightarrow> (lua_error + lua_value list) \<times> lua_State" where
  "lualdap_search E arr reply p r st args =
     (case getconnection st args of
        Inl e \<Rightarrow> (Inl e, st)
      | Inr c \<Rightarrow>
     if \<not> lua_istable (arg args 2)
     then (Inl (LuaError (LUALDAP_PREFIX @ ''no search specification'')), st)
     else
     (case get_attrs_param E arr args of
        Inl e \<Rightarrow> (Inl e, st)
      | Inr attrs' \<Rightarrow>
     (case booltabparam args ''attrsonly'' 0 of
        Inl e \<Rightarrow> (Inl e, st)
      | Inr attrsonly \<Rightarrow>
     (case strtabparam E args ''base'' None of
        Inl e \<Rightarrow> (Inl e, st)
      | Inr base \<Rightarrow>
     (case strtabparam E args ''filter'' None of
        Inl e \<Rightarrow> (Inl e, st)
      | Inr filter' \<Rightarrow>
     (case strtabparam E args ''scope'' None of
        Inl e \<Rightarrow> (Inl e, st)
      | Inr scope_str \<Rightarrow>
     (case string2scope scope_str of
        Inl e \<Rightarrow> (Inl e, st)
      | Inr scope \<Rightarrow>
     (case longtabparam E args ''sizelimit'' LDAP_NO_LIMIT of
        Inl e \<Rightarrow> (Inl e, st)
      | Inr l \<Rightarrow>
     (let sizelimit = int_of_long l in
     (case get_timeout_param E args of
        Inl e \<Rightarrow> (Inl e, st)
      | Inr timeout \<Rightarrow>
          (let st1 = log_call (Call_search_ext (ld c) base scope filter' (until_null attrs')
                                 attrsonly timeout sizelimit) st
           in if fst reply \<noteq> LDAP_SUCCESS
              then (Inl (SubmitError (ldap_err2string E (fst reply))), st1)
              else (Inr [LCClosure F_next_message [LUserdata p], arg args 2],
                    create_search st1 args p r 1 (snd reply)))))))))))))"

text \<open>
  \<open>push_values\<close>: the value or values of attribute \<open>attr\<close> of an entry, as
  \<open>ldap_get_values_len\<close> finds them (\<open>NULL\<close>, which counts as no values, when the entry
  has no such attribute).
\<close>

definition ldap_get_values_len :: "LDAPMessage \<Rightarrow> string \<Rightarrow> BerValue list option" where
  "ldap_get_values_len entry attr = map_of (entry_attrs entry) attr"

definition ldap_count_values_len :: "BerValue list option \<Rightarrow> nat" where
  "ldap_count_values_len vals = (case vals of None \<Rightarrow> 0 | Some vs \<Rightarrow> length vs)"

definition lua_pushlstring :: "BerValue \<Rightarrow> lua_value" where
  "lua_pushlstring b = LString (bytes_of b)"

definition push_values :: "LDAPMessage \<Rightarrow> string \<Rightarrow> lua_value" where
  "push_values entry attr =
     (let vals = ldap_get_values_len entry attr;
          n = ldap_count_values_len vals
      in if n = 0 then LBool True
         else if n = 1 then lua_pushlstring (the vals ! 0)
         else LTable (map (\<lambda>i. (LNumber (int i + 1), lua_pushlstring (the vals ! i))) [0 ..< n]))"

text \<open>\<open>lua_rawset\<close> with a value that is not nil: the key keeps its place, a new key comes last.\<close>

fun lua_rawset :: "(lua_value \<times> lua_value) list \<Rightarrow> lua_value \<Rightarrow> lua_value \<Rightarrow> (lua_value \<times> lua_value) list" where
  "lua_rawset [] k v = [(k, v)]"
| "lua_rawset ((k', v') # t) k v = (if k' = k then (k, v) # t else (k', v') # lua_rawset t k v)"

text \<open>\<open>set_attribs\<close>: the loop over the attribute names of the entry.\<close>

fun set_attribs_loop :: "LDAPMessage \<Rightarrow> string list \<Rightarrow> (lua_value \<times> lua_value) list \<Rightarrow> (lua_value \<times> lua_value) list" where
  "set_attribs_loop entry [] tab = tab"
| "set_attribs_loop entry (attr # rest) tab =
     set_attribs_loop entry rest (lua_rawset tab (LString attr) (push_values entry attr))"

definition set_attribs :: "LDAPMessage \<Rightarrow> (lua_value \<times> lua_value) list \<Rightarrow> (lua_value \<times> lua_value) list" where
  "set_attribs entry tab = set_attribs_loop entry (map fst (entry_attrs entry)) tab"

text \<open>\<open>push_dn\<close>: \<open>lua_pushstring\<close> pushes nil for \<open>NULL\<close>.\<close>

definition push_dn :: "LDAPMessage \<Rightarrow> lua_value" where
  "push_dn entry = (case entry_dn entry of None \<Rightarrow> LNil | Some dn \<Rightarrow> LString dn)"

text \<open>\<open>search_close\<close> on the search block at address \<open>p\<close>.\<close>

definition search_close :: "lua_State \<Rightarrow> nat \<Rightarrow> search_data \<Rightarrow> lua_State" where
  "search_close st p search =
     st\<lparr>registry := (registry st)(conn search := None),
        heap := (heap st)(p := Some (USearch (search\<lparr>conn := LUA_NOREF\<rparr>)))\<rparr>"

text \<open>
  \<open>next_message\<close> is the iterator \<open>lualdap_search\<close> returns; \<open>ups\<close> are its upvalues and
  \<open>reply\<close> is what \<open>ldap_result\<close> answers.
\<close>

definition next_message :: "extern \<Rightarrow> poll_reply \<Rightarrow> lua_State \<Rightarrow> lua_value list
    \<Rightarrow> (lua_error + lua_value list) \<times> lua_State" where
  "next_message E reply st ups =
     (case lua_touserdata (arg ups 1) of
        None \<Rightarrow> (Inl Fault, st)
      | Some p \<Rightarrow>
     (case heap st p of
        Some (USearch search) \<Rightarrow>
          if \<not> (conn search \<noteq> LUA_NOREF) then (Inl (ArgError 1 search_closed), st)
          else
            (case registry st (conn search) of
               None \<Rightarrow> (Inl Fault, st)
             | Some cv \<Rightarrow>
            (case lua_touserdata cv of
               None \<Rightarrow> (Inl Fault, st)
             | Some q \<Rightarrow>
            (case heap st q of
               Some (UConn c) \<Rightarrow>
                 (let st1 = log_call (Call_result (ld c) (msgid search)) st;
                      rc = p_rc reply;
                      res = p_res reply
                  in if rc = 0
                     then (Inr (faildirect (LUALDAP_PREFIX @ ''result timeout expired'')), st1)
                     else if rc = - 1
                     then (Inr (faildirect (LUALDAP_PREFIX @ ''result error'')), st1)
                     else if rc = LDAP_RES_SEARCH_RESULT
                     then (Inr [], log_call (Call_msgfree res) (search_close st1 p search))
                     else if msgtype res = LDAP_RES_SEARCH_ENTRY
                     then (Inr [push_dn res, LTable (set_attribs res [])],
                           log_call (Call_msgfree res) st1)
                     else if msgtype res = LDAP_RES_SEARCH_REFERENCE
                     then (Inr [push_dn res, LNil], log_call (Call_msgfree res) st1)
                     else if msgtype res = LDAP_RES_SEARCH_RESULT
                     then (Inr [], log_call (Call_msgfree res) (search_close st1 p search))
                     else (Inl (LuaError (LUALDAP_PREFIX @ ''error on search result chain'')),
                           log_call (Call_msgfree res) st1))
             | _ \<Rightarrow> (Inl Fault, st))))
      | _ \<Rightarrow> (Inl Fault, st)))"

text \<open>\<open>lualdap_search_close\<close>: the search object is argument 1.\<close>

definition lualdap_search_close :: "lua_State \<Rightarrow> lua_value list \<Rightarrow> (lua_error + lua_value list) \<times> lua_State" where
  "lualdap_search_close st args =
     (case arg args 1 of
        LUserdata p \<Rightarrow>
          (case heap st p of
             Some (USearch search) \<Rightarrow>
               if conn search = LUA_NOREF then (Inr [], st)
               else (Inr [LNumber 1], search_close st p search)
           | _ \<Rightarrow> (Inl (CheckError 1 LUALDAP_SEARCH_METATABLE), st))
      | _ \<Rightarrow> (Inl (CheckError 1 LUALDAP_SEARCH_METATABLE), st))"


section \<open>Notions the properties are stated with\<close>

text \<open>The pairs of a table that \<open>A_tab2mod\<close> takes for attributes, in its order.\<close>

definition attr_pairs :: "extern \<Rightarrow> lua_value \<Rightarrow> (lua_value \<times> lua_value) list" where
  "attr_pairs E t = (case t of LTable kvs \<Rightarrow> filter (\<lambda>kv. attr_key E (fst kv)) kvs | _ \<Rightarrow> [])"

text \<open>The groups of a call of modify: the table arguments from the third on, up to the first that is none.\<close>

definition groups :: "lua_value list \<Rightarrow> lua_value list" where
  "groups args = takeWhile lua_istable (drop 2 args)"

definition group_entries :: "extern \<Rightarrow> lua_value list \<Rightarrow> (lua_value \<times> lua_value) list" where
  "group_entries E gs = concat (map (attr_pairs E) gs)"

text \<open>The operation code of a group, read from its element 1 as \<open>lualdap_modify\<close> does.\<close>

definition group_op :: "extern \<Rightarrow> lua_value \<Rightarrow> int" where
  "group_op E g = op2code (lua_tostring E (lua_rawgeti g 1))"

text \<open>A C string that does not begin with one of the characters \<open>+\<close>, \<open>-\<close>, \<open>=\<close>, or no string at all.\<close>

fun no_sigil :: "string option \<Rightarrow> bool" where
  "no_sigil None = True"
| "no_sigil (Some []) = True"
| "no_sigil (Some (c # _)) = (c \<noteq> CHR ''+'' \<and> c \<noteq> CHR ''-'' \<and> c \<noteq> CHR ''='')"

text \<open>An attribute value that takes at most one value slot: \<open>true\<close> or a string.\<close>

fun simple_value :: "lua_value \<Rightarrow> bool" where
  "simple_value (LBool b) = b"
| "simple_value (LString s) = True"
| "simple_value _ = False"

text \<open>A structure whose value arrays are filled no further than simple values fill them.\<close>

definition roomy :: "attrs_data \<Rightarrow> bool" where
  "roomy a \<longleftrightarrow> vi a \<le> 2 * ai a \<and> bi a \<le> ai a"

text \<open>
  A reply of \<open>ldap_result\<close> that carries the last message of a search: the return code
  is the type of the message received.
\<close>

definition terminal :: "poll_reply \<Rightarrow> bool" where
  "terminal reply \<longleftrightarrow>
     p_rc reply = LDAP_RES_SEARCH_RESULT \<or>
     (p_rc reply \<noteq> 0 \<and> p_rc reply \<noteq> - 1 \<and> msgtype (p_res reply) = LDAP_RES_SEARCH_RESULT)"





text \<open>The table \<open>{x1, ..., xn}\<close>, in the order of its indices.\<close>

definition seq_table :: "lua_value list \<Rightarrow> lua_value" where
  "seq_table xs = LTable (map (\<lambda>i. (LNumber (int i + 1), xs ! i)) [0 ..< length xs])"

section \<open>Notions for the encoding of attribute values\<close>

text \<open>
  The values \<open>A_tab2val\<close> stores for an attribute value: none at all for \<open>true\<close>
  (\<open>NULL\<close>), the value itself for a string or number, the elements for a table.  A value
  is well shaped when \<open>A_tab2val\<close> raises no "invalid value" for it.
\<close>

definition value_list :: "lua_value \<Rightarrow> lua_value list option" where
  "value_list v =
     (if lua_isboolean v \<and> lua_toboolean v = 1 then None
      else if lua_isstring v then Some [v]
      else Some (elements v))"

definition well_shaped :: "lua_value \<Rightarrow> bool" where
  "well_shaped v \<longleftrightarrow>
     (lua_isboolean v \<and> lua_toboolean v = 1) \<or> lua_isstring v \<or>
     (lua_istable v \<and> list_all lua_isstring (elements v))"

text \<open>The elements of \<open>bvals\<close> and the slots of \<open>values\<close> an attribute value takes.\<close>

definition need_bvals :: "lua_value \<Rightarrow> nat" where
  "need_bvals v = (case value_list v of None \<Rightarrow> 0 | Some vs \<Rightarrow> length vs)"

definition need_slots :: "lua_value \<Rightarrow> nat" where
  "need_slots v = (case value_list v of None \<Rightarrow> 0 | Some vs \<Rightarrow> length vs + 1)"

text \<open>The \<open>BerValue\<close> that \<open>A_setbval\<close> makes of a string or number.\<close>

definition mk_bval :: "extern \<Rightarrow> lua_value \<Rightarrow> BerValue" where
  "mk_bval E v = (let s = the (lua_tolstring E v) in \<lparr>bv_len = length s, bv_val = s\<rparr>)"

text \<open>
  What a modification built from the pair \<open>(k, v)\<close> under the operation \<open>op\<close> should
  look like to the library: the value list is absent for \<open>true\<close>, one string for a
  string, the strings of the elements for a table.
\<close>

definition encode_value :: "extern \<Rightarrow> lua_value \<Rightarrow> string list option" where
  "encode_value E v = map_option (map (\<lambda>x. the (lua_tolstring E x))) (value_list v)"

definition encode_pair :: "extern \<Rightarrow> int \<Rightarrow> lua_value \<times> lua_value \<Rightarrow> wire_mod" where
  "encode_pair E op kv =
     \<lparr>w_op = op, w_type = the (lua_tostring E (fst kv)), w_vals = encode_value E (snd kv)\<rparr>"

text \<open>
  Values that fit a structure which already holds \<open>n\<close> attributes, \<open>s\<close> slots and \<open>b\<close>
  values; the terminating \<open>NULL\<close> of \<open>attrs\<close> needs \<open>ai < LUALDAP_MAX_ATTRS\<close> after the
  last attribute.
\<close>

definition fits :: "nat \<Rightarrow> nat \<Rightarrow> nat \<Rightarrow> lua_value list \<Rightarrow> bool" where
  "fits n s b vs \<longleftrightarrow>
     n + length vs < LUALDAP_MAX_ATTRS \<and>
     s + sum_list (map need_slots vs) \<le> LUALDAP_ARRAY_VALUES_SIZE \<and>
     b + sum_list (map need_bvals vs) \<le> LUALDAP_MAX_VALUES \<and>
     list_all well_shaped vs"

definition within_capacity :: "lua_value list \<Rightarrow> bool" where
  "within_capacity vs \<longleftrightarrow>
     length vs < LUALDAP_MAX_ATTRS \<and>
     sum_list (map need_slots vs) \<le> LUALDAP_ARRAY_VALUES_SIZE \<and>
     sum_list (map need_bvals vs) \<le> LUALDAP_MAX_VALUES"

text \<open>
  The filled parts of the value arrays, and the invariant of a structure under
  construction: arrays of the declared sizes, counters within them.
\<close>

definition Vp :: "attrs_data \<Rightarrow> nat option list" where
  "Vp a = take (vi a) (values' a)"

definition Bp :: "attrs_data \<Rightarrow> BerValue list" where
  "Bp a = take (bi a) (bvals a)"

definition inv :: "attrs_data \<Rightarrow> bool" where
  "inv a \<longleftrightarrow> frame_ok a \<and> ai a \<le> LUALDAP_MAX_ATTRS \<and> vi a \<le> LUALDAP_ARRAY_VALUES_SIZE \<and>
     bi a \<le> LUALDAP_MAX_VALUES"

text \<open>
  \<open>step a a' X Y\<close>: \<open>a'\<close> is \<open>a\<close> with the slots \<open>X\<close> and the values \<open>Y\<close> appended and
  nothing else changed.
\<close>

definition step :: "attrs_data \<Rightarrow> attrs_data \<Rightarrow> nat option list \<Rightarrow> BerValue list \<Rightarrow> bool" where
  "step a a' X Y \<longleftrightarrow>
     inv a' \<and> Vp a' = Vp a @ X \<and> Bp a' = Bp a @ Y \<and>
     mods a' = mods a \<and> attrs a' = attrs a \<and> ai a' = ai a"

definition slots_for :: "nat \<Rightarrow> lua_value list option \<Rightarrow> nat option list" where
  "slots_for b vl = (case vl of None \<Rightarrow> [] | Some vs \<Rightarrow> map Some [b ..< b + length vs] @ [None])"

definition bvals_for :: "extern \<Rightarrow> lua_value list option \<Rightarrow> BerValue list" where
  "bvals_for E vl = (case vl of None \<Rightarrow> [] | Some vs \<Rightarrow> map (mk_bval E) vs)"

text \<open>
  The values read from slot \<open>s\<close> on, and what makes them independent of later writes:
  the list ends with a \<open>NULL\<close> inside the filled part and points into the filled part.
\<close>

definition vals_of :: "nat option list \<Rightarrow> BerValue list \<Rightarrow> nat \<Rightarrow> string list" where
  "vals_of V B s = map (\<lambda>j. bytes_of (B ! j)) (until_null (drop s V))"

definition closed :: "nat option list \<Rightarrow> BerValue list \<Rightarrow> nat \<Rightarrow> bool" where
  "closed V B s \<longleftrightarrow>
     s \<le> length V \<and> None \<in> set (drop s V) \<and> list_all (\<lambda>j. j < length B) (until_null (drop s V))"

text \<open>\<open>repr a ws\<close>: the first \<open>ai a\<close> modifications of \<open>a\<close> read as \<open>ws\<close>.\<close>

definition repr_at :: "attrs_data \<Rightarrow> wire_mod \<Rightarrow> nat \<Rightarrow> bool" where
  "repr_at a w j \<longleftrightarrow>
     attrs a ! j = Some j \<and> w_op w = mod_op (mods a ! j) \<and> w_type w = mod_type (mods a ! j) \<and>
     (case mod_bvalues (mods a ! j) of
        None \<Rightarrow> w_vals w = None
      | Some s \<Rightarrow> closed (Vp a) (Bp a) s \<and> w_vals w = Some (vals_of (Vp a) (Bp a) s))"

definition repr :: "attrs_data \<Rightarrow> wire_mod list \<Rightarrow> bool" where
  "repr a ws \<longleftrightarrow> inv a \<and> length ws = ai a \<and> (\<forall>j < ai a. repr_at a (ws ! j) j)"

text \<open>
  The entry that corresponds to a list of modifications, for claim C3: the message of
  type search entry a directory returns for an entry that holds every attribute sent,
  each with the values sent for it, in that order.  The directory is not part of
  lualdap.c; this is what "the equivalent server entry" is taken to mean.
\<close>

definition as_bval :: "string \<Rightarrow> BerValue" where
  "as_bval s = \<lparr>bv_len = length s, bv_val = s\<rparr>"

definition entry_of :: "string \<Rightarrow> wire_mod list \<Rightarrow> LDAPMessage" where
  "entry_of dn ms =
     \<lparr>msgtype = LDAP_RES_SEARCH_ENTRY, parse_rc = LDAP_SUCCESS, parse_err = LDAP_SUCCESS,
      parse_mdn = None, parse_msg = None, entry_dn = Some dn,
      entry_attrs = map (\<lambda>m. (w_type m, case w_vals m of None \<Rightarrow> [] | Some vs \<Rightarrow> map as_bval vs)) ms\<rparr>"

text \<open>
  Encode, then decode: build the modifications of an add as \<open>lualdap_add\<close> does, and
  hand the corresponding entry to \<open>set_attribs\<close> with a new table, as \<open>next_message\<close>
  does.
\<close>

definition round_trip :: "extern \<Rightarrow> attrs_data \<Rightarrow> string \<Rightarrow> lua_value \<Rightarrow> lua_error + lua_value" where
  "round_trip E frame dn t =
     (case A_tab2mod E (A_init frame) t LUALDAP_MOD_ADD of
        Inl e \<Rightarrow> Inl e
      | Inr a1 \<Rightarrow>
          (case A_lastattr a1 of
             Inl e \<Rightarrow> Inl e
           | Inr a2 \<Rightarrow> Inr (LTable (set_attribs (entry_of dn (view_attrs a2)) []))))"

text \<open>The Lua value \<open>push_values\<close> makes of a list of values.\<close>

fun decode_vals :: "string list option \<Rightarrow> lua_value" where
  "decode_vals None = LBool True"
| "decode_vals (Some []) = LBool True"
| "decode_vals (Some [s]) = LString s"
| "decode_vals (Some ss) = seq_table (map LString ss)"

text \<open>
  The attribute maps that come back unchanged: a key is a string that Lua does not
  convert to a number and that has no zero byte, a value is \<open>true\<close>, a string, or a
  sequence of two or more strings.
\<close>

fun is_lstring :: "lua_value \<Rightarrow> bool" where
  "is_lstring (LString s) = True"
| "is_lstring _ = False"

definition mirror_value :: "lua_value \<Rightarrow> bool" where
  "mirror_value v \<longleftrightarrow>
     v = LBool True \<or> is_lstring v \<or>
     (2 \<le> lua_rawlen v \<and> list_all is_lstring (elements v) \<and> v = seq_table (elements v))"

fun mirror_key :: "extern \<Rightarrow> lua_value \<Rightarrow> bool" where
  "mirror_key E (LString name) = (str2number E name = None \<and> list_all (\<lambda>c. c \<noteq> CHR 0x00) name)"
| "mirror_key E _ = False"

section \<open>Sample inputs\<close>

text \<open>
  Library functions for the examples: they convert only what the examples use.
\<close>

definition ex_extern :: extern where
  "ex_extern =
     \<lparr>number2str = (\<lambda>n. if n = 42 then ''42'' else ''0''),
      str2number = (\<lambda>s. if s = ''10'' then Some 10 else None),
      ldap_err2string = (\<lambda>rc. if rc = 0 then ''Success''
                               else if rc = 32 then ''No such object''
                               else ''Unknown error'')\<rparr>"

text \<open>A stack frame and an array of pointers that hold what an earlier call left there.\<close>

definition ex_frame :: attrs_data where
  "ex_frame =
     \<lparr>attrs = replicate 101 (Some 7),
      mods = replicate 100 \<lparr>mod_op = 9, mod_type = ''junk'', mod_bvalues = Some 3\<rparr>,
      ai = 55,
      values' = replicate 200 (Some 5),
      vi = 66,
      bvals = replicate 100 \<lparr>bv_len = 1, bv_val = ''j''\<rparr>,
      bi = 77\<rparr>"

definition ex_arr :: "string option list" where
  "ex_arr = replicate 100 (Some ''junk'')"

text \<open>
  A state with an open connection at address 10 and a closed one at address 12, an
  open search on each (addresses 11 and 13, references 5 and 6) and a closed search
  at address 14.
\<close>

definition ex_state :: lua_State where
  "ex_state =
     \<lparr>heap = (\<lambda>p. if p = 10 then Some (UConn \<lparr>version = 3, ld = Some 21\<rparr>)
                  else if p = 11 then Some (USearch \<lparr>conn = 5, msgid = 7\<rparr>)
                  else if p = 12 then Some (UConn \<lparr>version = 3, ld = None\<rparr>)
                  else if p = 13 then Some (USearch \<lparr>conn = 6, msgid = 8\<rparr>)
                  else if p = 14 then Some (USearch \<lparr>conn = LUA_NOREF, msgid = 9\<rparr>)
                  else None),
      registry = (\<lambda>r. if r = 5 then Some (LUserdata 10)
                      else if r = 6 then Some (LUserdata 12)
                      else None),
      calls = []\<rparr>"

text \<open>
  A table of \<open>n\<close> attributes named a, aa, aaa and so on, each with the value \<open>v\<close>, and the
  same as a group of modify with the operation sign \<open>sign\<close>.
\<close>

definition ex_names :: "nat \<Rightarrow> string list" where
  "ex_names n = map (\<lambda>i. replicate (Suc i) CHR ''a'') [0 ..< n]"

definition ex_table :: "nat \<Rightarrow> lua_value \<Rightarrow> lua_value" where
  "ex_table n v = LTable (map (\<lambda>k. (LString k, v)) (ex_names n))"

definition ex_group :: "string \<Rightarrow> nat \<Rightarrow> lua_value \<Rightarrow> lua_value" where
  "ex_group sign n v = LTable ((LNumber 1, LString sign) # map (\<lambda>k. (LString k, v)) (ex_names n))"

definition ex_message :: LDAPMessage where
  "ex_message =
     \<lparr>msgtype = LDAP_RES_SEARCH_ENTRY, parse_rc = 0, parse_err = 32,
      parse_mdn = Some ''dc=example'', parse_msg = Some ''no entry'',
      entry_dn = Some ''cn=test,dc=example'',
      entry_attrs = [(''cn'', [\<lparr>bv_len = 4, bv_val = ''test''\<rparr>]),
                     (''objectClass'', [\<lparr>bv_len = 3, bv_val = ''top''\<rparr>,
                                        \<lparr>bv_len = 6, bv_val = ''person''\<rparr>]),
                     (''seeAlso'', [])]\<rparr>"


section \<open>Basic facts\<close>

lemma LUALDAP_ops:
  "LUALDAP_MOD_ADD = 0x80" "LUALDAP_MOD_DEL = 0x81" "LUALDAP_MOD_REP = 0x82"
  by (simp_all add: LUALDAP_MOD_ADD_def LUALDAP_MOD_DEL_def LUALDAP_MOD_REP_def
      LDAP_MOD_ADD_def LDAP_MOD_DELETE_def LDAP_MOD_REPLACE_def LDAP_MOD_BVALUES_def)

lemma until_null_Nil [simp]: "until_null [] = []"
  by (simp add: until_null_def)

lemma until_null_None [simp]: "until_null (None # ps) = []"
  by (simp add: until_null_def)

lemma until_null_Some [simp]: "until_null (Some p # ps) = p # until_null ps"
  by (simp add: until_null_def)

lemma view_attrs_empty:
  "A_lastattr (A_init frame) = Inr a \<Longrightarrow> view_attrs a = []"
  by (cases "attrs frame") (auto simp: A_lastattr_def A_init_def view_attrs_def split: if_splits)

lemma A_lastattr_init:
  "\<exists>a. A_lastattr (A_init frame) = Inr a"
  by (simp add: A_lastattr_def A_init_def LUALDAP_MAX_ATTRS_def)

lemma op2code_no_sigil: "op2code s = LUALDAP_NO_OP \<longleftrightarrow> no_sigil s"
proof (cases s)
  case None
  then show ?thesis by simp
next
  case (Some str)
  then show ?thesis by (cases str) (simp_all add: LUALDAP_ops LUALDAP_NO_OP_def)
qed

lemma modify_loop_takeWhile:
  "modify_loop E a gs p = modify_loop E a (takeWhile lua_istable gs) p"
  by (induction gs arbitrary: a p) (auto simp: Let_def split: sum.splits)

lemma modify_loop_append:
  "list_all lua_istable xs \<Longrightarrow>
   modify_loop E a (xs @ ys) p =
     (case modify_loop E a xs p of
        Inl e \<Rightarrow> Inl e
      | Inr a' \<Rightarrow> modify_loop E a' ys (p + int (length xs)))"
proof (induction xs arbitrary: a p)
  case Nil
  then show ?case by simp
next
  case (Cons x xs)
  then have t: "lua_istable x" and r: "list_all lua_istable xs" by simp_all
  show ?case
  proof (cases "group_op E x = LUALDAP_NO_OP")
    case True
    with t show ?thesis by (simp add: group_op_def)
  next
    case False
    show ?thesis
    proof (cases "A_tab2mod E a x (group_op E x)")
      case (Inl e)
      with t False show ?thesis by (simp add: group_op_def)
    next
      case (Inr a1)
      with t False Cons.IH[OF r, of a1 "p + 1"] show ?thesis
        by (simp add: group_op_def algebra_simps split: sum.splits)
    qed
  qed
qed

lemma groups_all_tables: "list_all lua_istable (groups args)"
  by (simp add: groups_def list_all_iff) (meson set_takeWhileD)

lemma arg_take_app: "i \<le> n \<Longrightarrow> 1 \<le> i \<Longrightarrow> n \<le> length args \<Longrightarrow> arg (take n args @ xs) i = arg args i"
  by (auto simp: arg_def nth_append)

lemma ex_getconnection: "getconnection ex_state (LUserdata 10 # rest) = Inr \<lparr>version = 3, ld = Some 21\<rparr>"
  by (simp add: getconnection_def check_connection_def arg_def ex_state_def)

lemma ex_calls: "calls ex_state = []"
  by (simp add: ex_state_def)

lemma ex_checkstring: "luaL_checkstring E (x # LString ''cn=x'' # rest) 2 = Inr ''cn=x''"
  by (simp add: luaL_checkstring_def lua_tostring_def arg_def cstr_def)

section \<open>add without an attribute table\<close>

text \<open>
  Claim C10: calling add with a third argument that is no table, or with none, is not
  an error; the call submits an Add request with an empty modification array, exactly
  as with an empty attribute table.
\<close>

theorem add_without_table:
  assumes nt: "\<not> lua_istable (arg args 3)"
    and c: "getconnection st args = Inr c"
    and dn: "luaL_checkstring E args 2 = Inr dn"
  shows "lualdap_add E frame reply st args =
           (Inr (create_future E args (fst reply) 1 (snd reply) LDAP_RES_ADD),
            log_call (Call_add_ext (ld c) dn []) st)
         \<and> lualdap_add E frame reply st args =
           lualdap_add E frame reply st (take 2 args @ [LTable []])"
proof -
  obtain a where a: "A_lastattr (A_init frame) = Inr a" using A_lastattr_init by blast
  have v: "view_attrs a = []" by (rule view_attrs_empty[OF a])
  have len: "2 \<le> length args"
    using dn by (auto simp: luaL_checkstring_def arg_def lua_tostring_def split: option.splits if_splits)
  have first: "lualdap_add E frame reply st args =
           (Inr (create_future E args (fst reply) 1 (snd reply) LDAP_RES_ADD),
            log_call (Call_add_ext (ld c) dn []) st)"
    using nt c dn a v by (simp add: lualdap_add_def)
  let ?args = "take 2 args @ [LTable []]"
  have a1: "arg ?args 1 = arg args 1" and a2: "arg ?args 2 = arg args 2"
    using len by (simp_all add: arg_take_app)
  have a3: "arg ?args 3 = LTable []" using len by (simp add: arg_def nth_append)
  have c': "getconnection st ?args = Inr c"
    using c a1 by (simp add: getconnection_def check_connection_def)
  have dn': "luaL_checkstring E ?args 2 = Inr dn"
    using dn a2 by (simp add: luaL_checkstring_def)
  have cf: "create_future E ?args (fst reply) 1 (snd reply) LDAP_RES_ADD
             = create_future E args (fst reply) 1 (snd reply) LDAP_RES_ADD"
    using a1 by (simp add: create_future_def)
  have second: "lualdap_add E frame reply st ?args =
           (Inr (create_future E args (fst reply) 1 (snd reply) LDAP_RES_ADD),
            log_call (Call_add_ext (ld c) dn []) st)"
    using c' dn' a3 a v cf by (simp add: lualdap_add_def)
  from first second show ?thesis by simp
qed

theorem add_without_table_witness:
  "fst (lualdap_add ex_extern ex_frame (0, 7) ex_state [LUserdata 10, LString ''cn=x''])
     = Inr [LCClosure F_result_message [LUserdata 10, LNumber 7, LNumber LDAP_RES_ADD]]
   \<and> calls (snd (lualdap_add ex_extern ex_frame (0, 7) ex_state [LUserdata 10, LString ''cn=x'']))
     = [Call_add_ext (Some 21) ''cn=x'' []]
   \<and> lualdap_add ex_extern ex_frame (0, 7) ex_state [LUserdata 10, LString ''cn=x'']
     = lualdap_add ex_extern ex_frame (0, 7) ex_state [LUserdata 10, LString ''cn=x'', LTable []]"
proof -
  have nt: "\<not> lua_istable (arg [LUserdata 10, LString ''cn=x''] 3)" by (simp add: arg_def)
  note w = add_without_table[OF nt ex_getconnection ex_checkstring, of ex_extern ex_frame "(0, 7)"]
  have r: "lualdap_add ex_extern ex_frame (0, 7) ex_state [LUserdata 10, LString ''cn=x''] =
      (Inr [LCClosure F_result_message [LUserdata 10, LNumber 7, LNumber LDAP_RES_ADD]],
       log_call (Call_add_ext (Some 21) ''cn=x'' []) ex_state)"
    using w[THEN conjunct1] by (simp add: create_future_def LDAP_SUCCESS_def arg_def)
  have e: "lualdap_add ex_extern ex_frame (0, 7) ex_state [LUserdata 10, LString ''cn=x'']
     = lualdap_add ex_extern ex_frame (0, 7) ex_state [LUserdata 10, LString ''cn=x'', LTable []]"
    using w[THEN conjunct2] by simp
  have "fst (lualdap_add ex_extern ex_frame (0, 7) ex_state [LUserdata 10, LString ''cn=x''])
     = Inr [LCClosure F_result_message [LUserdata 10, LNumber 7, LNumber LDAP_RES_ADD]]"
    by (simp add: r)
  moreover have "calls (snd (lualdap_add ex_extern ex_frame (0, 7) ex_state [LUserdata 10, LString ''cn=x'']))
     = [Call_add_ext (Some 21) ''cn=x'' []]"
    by (simp add: r log_call_def ex_calls)
  ultimately show ?thesis using e by blast
qed

section \<open>The operation sign of a group of modify\<close>

lemma lualdap_modify_no_groups:
  assumes c: "getconnection st args = Inr c"
    and dn: "luaL_checkstring E args 2 = Inr dn"
    and e: "groups args = []"
  shows "lualdap_modify E frame reply st args =
              (Inr (create_future E args (fst reply) 1 (snd reply) LDAP_RES_MODIFY),
               log_call (Call_modify_ext (ld c) dn []) st)"
proof -
  obtain a where a: "A_lastattr (A_init frame) = Inr a" using A_lastattr_init by blast
  have "modify_loop E (A_init frame) (drop 2 args) 3 = modify_loop E (A_init frame) (groups args) 3"
    unfolding groups_def by (rule modify_loop_takeWhile)
  then have "modify_loop E (A_init frame) (drop 2 args) 3 = Inr (A_init frame)"
    using e by simp
  then show ?thesis
    using c dn a view_attrs_empty[OF a] by (simp add: lualdap_modify_def)
qed

text \<open>
  Claim C2, as the code has it: in a call of modify on an open connection, a group that
  the loop reaches (the groups before it were built without error) and whose element 1
  is no string, or a string that does not begin with \<open>+\<close>, \<open>-\<close> or \<open>=\<close>, raises
  "forgotten operation on argument #p", \<open>p\<close> the argument position of the group (3 for
  the first).  A call without groups raises nothing: it submits a Modify request with
  an empty modification array.
\<close>

theorem modify_sigil:
  assumes c: "getconnection st args = Inr c"
    and dn: "luaL_checkstring E args 2 = Inr dn"
  shows "(\<forall>i. i < length (groups args) \<and>
              (\<exists>a. modify_loop E (A_init frame) (take i (groups args)) 3 = Inr a) \<and>
              no_sigil (lua_tostring E (lua_rawgeti (groups args ! i) 1))
            \<longrightarrow> lualdap_modify E frame reply st args = (Inl (ForgottenOperation (3 + int i)), st))
       \<and> (groups args = [] \<longrightarrow>
            lualdap_modify E frame reply st args =
              (Inr (create_future E args (fst reply) 1 (snd reply) LDAP_RES_MODIFY),
               log_call (Call_modify_ext (ld c) dn []) st))"
proof (intro conjI allI impI)
  fix i
  assume h: "i < length (groups args) \<and>
      (\<exists>a. modify_loop E (A_init frame) (take i (groups args)) 3 = Inr a) \<and>
      no_sigil (lua_tostring E (lua_rawgeti (groups args ! i) 1))"
  then obtain a where i: "i < length (groups args)"
    and pre: "modify_loop E (A_init frame) (take i (groups args)) 3 = Inr a"
    and bad: "no_sigil (lua_tostring E (lua_rawgeti (groups args ! i) 1))" by blast
  let ?g = "groups args ! i"
  have split: "groups args = take i (groups args) @ ?g # drop (Suc i) (groups args)"
    using i by (simp add: id_take_nth_drop)
  have tabs: "list_all lua_istable (take i (groups args))"
    using groups_all_tables[of args] by (auto simp: list_all_iff dest: in_set_takeD)
  have g: "lua_istable ?g"
    using groups_all_tables[of args] i by (simp add: list_all_length)
  have "modify_loop E (A_init frame) (drop 2 args) 3 = modify_loop E (A_init frame) (groups args) 3"
    unfolding groups_def by (rule modify_loop_takeWhile)
  also have "\<dots> = modify_loop E (A_init frame) (take i (groups args) @ ?g # drop (Suc i) (groups args)) 3"
    using split by simp
  also have "\<dots> = modify_loop E a (?g # drop (Suc i) (groups args)) (3 + int i)"
    using pre i by (simp add: modify_loop_append[OF tabs] min_def)
  also have "\<dots> = Inl (ForgottenOperation (3 + int i))"
    using g bad by (simp add: op2code_no_sigil)
  finally show "lualdap_modify E frame reply st args = (Inl (ForgottenOperation (3 + int i)), st)"
    using c dn by (simp add: lualdap_modify_def)
next
  assume e: "groups args = []"
  from lualdap_modify_no_groups[OF c dn e]
  show "lualdap_modify E frame reply st args =
              (Inr (create_future E args (fst reply) 1 (snd reply) LDAP_RES_MODIFY),
               log_call (Call_modify_ext (ld c) dn []) st)" .
qed

theorem modify_sigil_witness:
  "lualdap_modify ex_extern ex_frame (0, 7) ex_state
     [LUserdata 10, LString ''cn=x'',
      LTable [(LNumber 1, LString ''+''), (LString ''mail'', LString ''a@b'')],
      LTable [(LString ''mail'', LString ''a@b'')]]
   = (Inl (ForgottenOperation 4), ex_state)
   \<and> fst (lualdap_modify ex_extern ex_frame (0, 7) ex_state [LUserdata 10, LString ''cn=x''])
   = Inr [LCClosure F_result_message [LUserdata 10, LNumber 7, LNumber LDAP_RES_MODIFY]]"
proof -
  let ?args = "[LUserdata 10, LString ''cn=x'',
      LTable [(LNumber 1, LString ''+''), (LString ''mail'', LString ''a@b'')],
      LTable [(LString ''mail'', LString ''a@b'')]]"
  have c: "getconnection ex_state ?args = Inr \<lparr>version = 3, ld = Some 21\<rparr>" by (rule ex_getconnection)
  have dn: "luaL_checkstring ex_extern ?args 2 = Inr ''cn=x''"
    by (simp add: luaL_checkstring_def lua_tostring_def arg_def cstr_def)
  have g: "groups ?args = [LTable [(LNumber 1, LString ''+''), (LString ''mail'', LString ''a@b'')],
      LTable [(LString ''mail'', LString ''a@b'')]]" by (simp add: groups_def)
  have pre: "\<exists>a. modify_loop ex_extern (A_init ex_frame) (take 1 (groups ?args)) 3 = Inr a"
    by (simp add: g lua_tostring_def cstr_def LUALDAP_ops LUALDAP_NO_OP_def attr_key_def ex_extern_def
        A_setmod_def A_tab2val_def A_setval_def A_setbval_def A_nullval_def A_init_def ex_frame_def
        LUALDAP_MAX_ATTRS_def LUALDAP_ARRAY_VALUES_SIZE_def LUALDAP_MAX_VALUES_def)
  have bad: "no_sigil (lua_tostring ex_extern (lua_rawgeti (groups ?args ! 1) 1))"
    by (simp add: g lua_tostring_def)
  from modify_sigil[OF c dn, of ex_frame "(0, 7)"] pre bad g
  have 1: "lualdap_modify ex_extern ex_frame (0, 7) ex_state ?args = (Inl (ForgottenOperation 4), ex_state)"
    by (auto simp del: modify_loop.simps)
  have g0: "groups [LUserdata 10, LString ''cn=x''] = []" by (simp add: groups_def)
  from modify_sigil[OF ex_getconnection[of "[LString ''cn=x'']"] ex_checkstring[of ex_extern "LUserdata 10" "[]"],
      where frame = ex_frame and reply = "(0, 7)", THEN conjunct2] g0
  have 2: "fst (lualdap_modify ex_extern ex_frame (0, 7) ex_state [LUserdata 10, LString ''cn=x''])
      = Inr [LCClosure F_result_message [LUserdata 10, LNumber 7, LNumber LDAP_RES_MODIFY]]"
    by (simp add: create_future_def LDAP_SUCCESS_def arg_def)
  from 1 2 show ?thesis by blast
qed

text \<open>
  The claim as written fails for a call without groups: modify with a connection and
  a name only returns a future and has submitted an empty request.
\<close>

theorem modify_zero_groups_counterexample:
  "fst (lualdap_modify ex_extern ex_frame (0, 7) ex_state [LUserdata 10, LString ''cn=x''])
     = Inr [LCClosure F_result_message [LUserdata 10, LNumber 7, LNumber LDAP_RES_MODIFY]]
   \<and> calls (snd (lualdap_modify ex_extern ex_frame (0, 7) ex_state [LUserdata 10, LString ''cn=x'']))
     = [Call_modify_ext (Some 21) ''cn=x'' []]"
proof -
  have g: "groups [LUserdata 10, LString ''cn=x''] = []" by (simp add: groups_def)
  from lualdap_modify_no_groups[OF ex_getconnection ex_checkstring g, of ex_extern ex_frame "(0, 7)"]
  show ?thesis
    by (simp add: create_future_def LDAP_SUCCESS_def arg_def log_call_def ex_calls)
qed

section \<open>Decoding the result of an operation\<close>

text \<open>
  Claim C4: when a result has been fetched and parsed, the result code Success or
  CompareTrue becomes \<open>true\<close>, CompareFalse becomes \<open>false\<close>, and every other code
  becomes nil with a text: the library's prefix, the error string of the code and, exactly
  when the server gave a diagnostic message, that message in parentheses.
\<close>

theorem result_decoding:
  assumes u: "lua_touserdata (arg ups 1) = Some p"
    and h: "heap st p = Some (UConn c)"
    and o: "ld c \<noteq> None"
    and rc: "0 < p_rc reply"
    and pr: "parse_rc (p_res reply) = LDAP_SUCCESS"
  shows "(parse_err (p_res reply) = LDAP_SUCCESS \<or> parse_err (p_res reply) = LDAP_COMPARE_TRUE
            \<longrightarrow> fst (result_message E reply st ups) = Inr [LBool True])
       \<and> (parse_err (p_res reply) = LDAP_COMPARE_FALSE
            \<longrightarrow> fst (result_message E reply st ups) = Inr [LBool False])
       \<and> (parse_err (p_res reply) \<noteq> LDAP_SUCCESS \<and> parse_err (p_res reply) \<noteq> LDAP_COMPARE_TRUE \<and>
          parse_err (p_res reply) \<noteq> LDAP_COMPARE_FALSE
            \<longrightarrow> fst (result_message E reply st ups) =
                  Inr [LNil, LString (LUALDAP_PREFIX @ ldap_err2string E (parse_err (p_res reply)) @
                         (case parse_msg (p_res reply) of
                            None \<Rightarrow> []
                          | Some m \<Rightarrow> '' ('' @ m @ '')''))])"
  using u h o rc pr
  by (cases "ld c")
     (simp_all add: result_message_def Let_def LDAP_SUCCESS_def LDAP_COMPARE_TRUE_def LDAP_COMPARE_FALSE_def)

lemma ex_upvalue: "lua_touserdata (arg (LUserdata p # rest) 1) = Some p"
  by (simp add: arg_def)

lemma ex_heap_10: "heap ex_state 10 = Some (UConn \<lparr>version = 3, ld = Some 21\<rparr>)"
  by (simp add: ex_state_def)

theorem result_decoding_witness:
  "fst (result_message ex_extern \<lparr>p_rc = 0x69, p_res = ex_message\<rparr> ex_state
          [LUserdata 10, LNumber 7, LNumber LDAP_RES_ADD])
     = Inr [LNil, LString ''LuaLDAP: No such object (no entry)'']
   \<and> fst (result_message ex_extern \<lparr>p_rc = 0x69, p_res = ex_message\<lparr>parse_err := 32, parse_msg := None\<rparr>\<rparr> ex_state
          [LUserdata 10, LNumber 7, LNumber LDAP_RES_ADD])
     = Inr [LNil, LString ''LuaLDAP: No such object'']
   \<and> fst (result_message ex_extern \<lparr>p_rc = 0x69, p_res = ex_message\<lparr>parse_err := 0\<rparr>\<rparr> ex_state
          [LUserdata 10, LNumber 7, LNumber LDAP_RES_ADD])
     = Inr [LBool True]
   \<and> fst (result_message ex_extern \<lparr>p_rc = 0x6f, p_res = ex_message\<lparr>parse_err := 6\<rparr>\<rparr> ex_state
          [LUserdata 10, LNumber 7, LNumber LDAP_RES_ADD])
     = Inr [LBool True]
   \<and> fst (result_message ex_extern \<lparr>p_rc = 0x6f, p_res = ex_message\<lparr>parse_err := 5\<rparr>\<rparr> ex_state
          [LUserdata 10, LNumber 7, LNumber LDAP_RES_ADD])
     = Inr [LBool False]"
proof -
  have o: "ld \<lparr>version = 3, ld = Some (21::nat)\<rparr> \<noteq> None" by simp
  note w = result_decoding[OF ex_upvalue ex_heap_10 o, where E = ex_extern]
  have 1: "fst (result_message ex_extern \<lparr>p_rc = 0x69, p_res = ex_message\<rparr> ex_state
          [LUserdata 10, LNumber 7, LNumber LDAP_RES_ADD])
     = Inr [LNil, LString ''LuaLDAP: No such object (no entry)'']"
    using w[of "\<lparr>p_rc = 0x69, p_res = ex_message\<rparr>" "[LNumber 7, LNumber LDAP_RES_ADD]"]
    by (simp add: ex_message_def ex_extern_def LUALDAP_PREFIX_def LDAP_SUCCESS_def LDAP_COMPARE_TRUE_def LDAP_COMPARE_FALSE_def)
  have 2: "fst (result_message ex_extern \<lparr>p_rc = 0x69, p_res = ex_message\<lparr>parse_err := 32, parse_msg := None\<rparr>\<rparr> ex_state
          [LUserdata 10, LNumber 7, LNumber LDAP_RES_ADD])
     = Inr [LNil, LString ''LuaLDAP: No such object'']"
    using w[of "\<lparr>p_rc = 0x69, p_res = ex_message\<lparr>parse_err := 32, parse_msg := None\<rparr>\<rparr>" "[LNumber 7, LNumber LDAP_RES_ADD]"]
    by (simp add: ex_message_def ex_extern_def LUALDAP_PREFIX_def LDAP_SUCCESS_def LDAP_COMPARE_TRUE_def LDAP_COMPARE_FALSE_def)
  have 3: "fst (result_message ex_extern \<lparr>p_rc = 0x69, p_res = ex_message\<lparr>parse_err := 0\<rparr>\<rparr> ex_state
          [LUserdata 10, LNumber 7, LNumber LDAP_RES_ADD])
     = Inr [LBool True]"
    using w[of "\<lparr>p_rc = 0x69, p_res = ex_message\<lparr>parse_err := 0\<rparr>\<rparr>" "[LNumber 7, LNumber LDAP_RES_ADD]"]
    by (simp add: ex_message_def LDAP_SUCCESS_def)
  have 4: "fst (result_message ex_extern \<lparr>p_rc = 0x6f, p_res = ex_message\<lparr>parse_err := 6\<rparr>\<rparr> ex_state
          [LUserdata 10, LNumber 7, LNumber LDAP_RES_ADD])
     = Inr [LBool True]"
    using w[of "\<lparr>p_rc = 0x6f, p_res = ex_message\<lparr>parse_err := 6\<rparr>\<rparr>" "[LNumber 7, LNumber LDAP_RES_ADD]"]
    by (simp add: ex_message_def LDAP_SUCCESS_def LDAP_COMPARE_TRUE_def)
  have 5: "fst (result_message ex_extern \<lparr>p_rc = 0x6f, p_res = ex_message\<lparr>parse_err := 5\<rparr>\<rparr> ex_state
          [LUserdata 10, LNumber 7, LNumber LDAP_RES_ADD])
     = Inr [LBool False]"
    using w[of "\<lparr>p_rc = 0x6f, p_res = ex_message\<lparr>parse_err := 5\<rparr>\<rparr>" "[LNumber 7, LNumber LDAP_RES_ADD]"]
    by (simp add: ex_message_def LDAP_SUCCESS_def LDAP_COMPARE_FALSE_def)
  from 1 2 3 4 5 show ?thesis by blast
qed

section \<open>The end of a search\<close>

lemma next_message_closed:
  assumes "lua_touserdata (arg ups 1) = Some p" "heap st p = Some (USearch s)" "conn s = LUA_NOREF"
  shows "next_message E reply st ups = (Inl (ArgError 1 search_closed), st)"
  using assms by (simp add: next_message_def)

lemma search_close_closed:
  assumes "heap st p = Some (USearch s)" "conn s = LUA_NOREF"
  shows "lualdap_search_close st (LUserdata p # rest) = (Inr [], st)"
  using assms by (simp add: lualdap_search_close_def arg_def)

lemma next_message_terminal:
  assumes u: "lua_touserdata (arg ups 1) = Some p"
    and s: "heap st p = Some (USearch s)"
    and op: "conn s \<noteq> LUA_NOREF"
    and r: "registry st (conn s) = Some (LUserdata q)"
    and c: "heap st q = Some (UConn c)"
    and t: "terminal reply"
  shows "next_message E reply st ups =
           (Inr [], log_call (Call_msgfree (p_res reply))
                      (search_close (log_call (Call_result (ld c) (msgid s)) st) p s))"
  using assms
  by (auto simp: next_message_def terminal_def Let_def LDAP_RES_SEARCH_RESULT_def
      LDAP_RES_SEARCH_ENTRY_def LDAP_RES_SEARCH_REFERENCE_def)

text \<open>
  Claim C7: the last message of a search closes the cursor (its reference to the
  connection is released) and that call returns nothing; every later call of the
  iterator is an argument error, and closing the closed cursor changes nothing and
  returns nothing.
\<close>

theorem search_done_closes:
  assumes u: "lua_touserdata (arg ups 1) = Some p"
    and s: "heap st p = Some (USearch s)"
    and op: "conn s \<noteq> LUA_NOREF"
    and r: "registry st (conn s) = Some (LUserdata q)"
    and c: "heap st q = Some (UConn c)"
    and t: "terminal reply"
    and st': "st' = snd (next_message E reply st ups)"
  shows "fst (next_message E reply st ups) = Inr []
       \<and> heap st' p = Some (USearch (s\<lparr>conn := LUA_NOREF\<rparr>))
       \<and> registry st' (conn s) = None
       \<and> next_message E reply' st' ups = (Inl (ArgError 1 search_closed), st')
       \<and> lualdap_search_close st' [LUserdata p] = (Inr [], st')"
proof -
  note n = next_message_terminal[OF u s op r c t, of E]
  have h: "heap st' p = Some (USearch (s\<lparr>conn := LUA_NOREF\<rparr>))"
    by (simp add: st' n search_close_def log_call_def)
  have cl: "conn (s\<lparr>conn := LUA_NOREF\<rparr>) = LUA_NOREF" by simp
  have "registry st' (conn s) = None"
    by (simp add: st' n search_close_def log_call_def)
  moreover note next_message_closed[OF u h cl, of E reply'] search_close_closed[OF h cl, of "[]"]
  ultimately show ?thesis using n h by simp
qed

lemma ex_heap_11: "heap ex_state 11 = Some (USearch \<lparr>conn = 5, msgid = 7\<rparr>)"
  by (simp add: ex_state_def)

lemma ex_registry_5: "registry ex_state 5 = Some (LUserdata 10)"
  by (simp add: ex_state_def)

theorem search_done_closes_witness:
  "fst (next_message ex_extern \<lparr>p_rc = 0x65, p_res = ex_message\<rparr> ex_state [LUserdata 11]) = Inr []
   \<and> heap (snd (next_message ex_extern \<lparr>p_rc = 0x65, p_res = ex_message\<rparr> ex_state [LUserdata 11])) 11
       = Some (USearch \<lparr>conn = LUA_NOREF, msgid = 7\<rparr>)
   \<and> fst (next_message ex_extern \<lparr>p_rc = 0x64, p_res = ex_message\<rparr>
          (snd (next_message ex_extern \<lparr>p_rc = 0x65, p_res = ex_message\<rparr> ex_state [LUserdata 11]))
          [LUserdata 11]) = Inl (ArgError 1 search_closed)
   \<and> fst (lualdap_search_close
          (snd (next_message ex_extern \<lparr>p_rc = 0x65, p_res = ex_message\<rparr> ex_state [LUserdata 11]))
          [LUserdata 11]) = Inr []"
proof -
  have op: "conn \<lparr>conn = 5, msgid = 7\<rparr> \<noteq> LUA_NOREF" by (simp add: LUA_NOREF_def)
  have r: "registry ex_state (conn \<lparr>conn = 5, msgid = 7\<rparr>) = Some (LUserdata 10)"
    by (simp add: ex_registry_5)
  have t: "terminal \<lparr>p_rc = 0x65, p_res = ex_message\<rparr>"
    by (simp add: terminal_def LDAP_RES_SEARCH_RESULT_def)
  from search_done_closes[OF ex_upvalue ex_heap_11 op r ex_heap_10 t refl,
      where E = ex_extern and reply' = "\<lparr>p_rc = 0x64, p_res = ex_message\<rparr>"]
  show ?thesis by simp
qed

section \<open>Polling errors and closed connections in the iterator\<close>






text \<open>
  The operations that take the connection as their first argument, and the closure
  that fetches a result, do raise the named error on a closed connection.
\<close>

lemma getconnection_closed:
  assumes "arg args 1 = LUserdata p" "heap st p = Some (UConn c)" "ld c = None"
  shows "getconnection st args = Inl (ArgError 1 connection_closed)"
  using assms by (simp add: getconnection_def check_connection_def)

lemma closed_connection_operations:
  assumes "arg args 1 = LUserdata p" "heap st p = Some (UConn c)" "ld c = None"
  shows "lualdap_add E frame reply st args = (Inl (ArgError 1 connection_closed), st)"
    and "lualdap_modify E frame reply st args = (Inl (ArgError 1 connection_closed), st)"
    and "lualdap_search E arr reply q r st args = (Inl (ArgError 1 connection_closed), st)"
    and "result_message E poll st (LUserdata p # ups) = (Inl (ArgError 1 connection_closed), st)"
  using getconnection_closed[OF assms] assms(2,3)
  by (simp_all add: lualdap_add_def lualdap_modify_def lualdap_search_def result_message_def arg_def)

lemma ex_heap_12: "heap ex_state 12 = Some (UConn \<lparr>version = 3, ld = None\<rparr>)"
  by (simp add: ex_state_def)

lemma ex_heap_13: "heap ex_state 13 = Some (USearch \<lparr>conn = 6, msgid = 8\<rparr>)"
  by (simp add: ex_state_def)

lemma ex_registry_6: "registry ex_state 6 = Some (LUserdata 12)"
  by (simp add: ex_state_def)

text \<open>
  Claim C6 says that every operation on a closed connection raises "LDAP connection is
  closed".  \<open>result_message\<close> does; \<open>next_message\<close> on an open search whose connection is
  closed hands the \<open>NULL\<close> handle to \<open>ldap_result\<close> and never raises that error.
\<close>

theorem next_message_on_closed_connection:
  "fst (next_message E reply ex_state [LUserdata 13]) \<noteq> Inl (ArgError 1 connection_closed)
   \<and> hd (calls (snd (next_message E reply ex_state [LUserdata 13]))) = Call_result None 8
   \<and> fst (result_message E reply' ex_state [LUserdata 12, LNumber 8, LNumber LDAP_RES_ADD])
       = Inl (ArgError 1 connection_closed)"
  by (simp add: next_message_def result_message_def arg_def ex_heap_12 ex_heap_13 ex_registry_6
      LUA_NOREF_def Let_def log_call_def faildirect_def search_close_def ex_calls)

section \<open>The scope of a search\<close>

lemma lualdap_search_scope_error:
  assumes "getconnection st args = Inr c" "lua_istable (arg args 2)"
    "get_attrs_param E arr args = Inr at" "booltabparam args ''attrsonly'' 0 = Inr ao"
    "strtabparam E args ''base'' None = Inr b" "strtabparam E args ''filter'' None = Inr f"
    "strtabparam E args ''scope'' None = Inr s" "string2scope s = Inl e"
  shows "lualdap_search E arr reply p r st args = (Inl e, st)"
  using assms by (simp add: lualdap_search_def)

text \<open>
  Claim C8: an absent or empty scope is the default scope, "b", "o" and "s" are base,
  one level and subtree, and a string with any other first character raises "invalid
  search scope"; \<open>lualdap_search\<close> passes the error on and submits nothing.
\<close>

theorem scope_parsing:
  "string2scope None = Inr LDAP_SCOPE_DEFAULT
   \<and> string2scope (Some []) = Inr LDAP_SCOPE_DEFAULT
   \<and> string2scope (Some ''b'') = Inr LDAP_SCOPE_BASE
   \<and> string2scope (Some ''o'') = Inr LDAP_SCOPE_ONELEVEL
   \<and> string2scope (Some ''s'') = Inr LDAP_SCOPE_SUBTREE
   \<and> (cstr str = CHR ''b'' # rest \<longrightarrow> string2scope (Some str) = Inr LDAP_SCOPE_BASE)
   \<and> (cstr str = CHR ''o'' # rest \<longrightarrow> string2scope (Some str) = Inr LDAP_SCOPE_ONELEVEL)
   \<and> (cstr str = CHR ''s'' # rest \<longrightarrow> string2scope (Some str) = Inr LDAP_SCOPE_SUBTREE)
   \<and> (cstr str = c # rest \<and> c \<noteq> CHR ''b'' \<and> c \<noteq> CHR ''o'' \<and> c \<noteq> CHR ''s''
        \<longrightarrow> string2scope (Some str) = Inl (InvalidScope (c # rest)))
   \<and> (lua_getfield (arg args 2) ''scope'' = LNil \<longrightarrow> strtabparam E args ''scope'' None = Inr None)
   \<and> (lua_getfield (arg args 2) ''scope'' = LString str
        \<longrightarrow> strtabparam E args ''scope'' None = Inr (Some (cstr str)))
   \<and> (getconnection st args = Inr cd \<and> lua_istable (arg args 2) \<and>
      get_attrs_param E arr args = Inr at \<and> booltabparam args ''attrsonly'' 0 = Inr ao \<and>
      strtabparam E args ''base'' None = Inr b \<and> strtabparam E args ''filter'' None = Inr f \<and>
      strtabparam E args ''scope'' None = Inr s \<and> string2scope s = Inl e
        \<longrightarrow> lualdap_search E arr reply p r st args = (Inl e, st))"
  by (auto simp: string2scope_def cstr_def strtabparam_def lua_tostring_def
      intro: lualdap_search_scope_error)

section \<open>The attrs option of a search\<close>

lemma get_attrs_loop_length:
  "get_attrs_loop E arr i vs = Inr arr' \<Longrightarrow> length arr' = length arr"
  by (induction vs arbitrary: arr i) (auto split: if_splits)

lemma get_attrs_loop_ok:
  "list_all lua_isstring vs \<Longrightarrow> i + length vs \<le> length arr \<Longrightarrow>
   get_attrs_loop E arr i vs =
     Inr (take i arr @ map (lua_tostring E) vs @ drop (i + length vs) arr)"
proof (induction vs arbitrary: arr i)
  case Nil
  then show ?case by simp
next
  case (Cons v vs)
  then have v: "lua_isstring v" and vs: "list_all lua_isstring vs"
    and i: "i < length arr" and l: "Suc i + length vs \<le> length (arr[i := lua_tostring E v])"
    by simp_all
  have "take (Suc i) (arr[i := lua_tostring E v]) = take i arr @ [lua_tostring E v]"
    using i by (simp add: take_Suc_conv_app_nth)
  with Cons.IH[OF vs l] v show ?case by simp
qed

lemma get_attrs_loop_bad:
  "j < length vs \<Longrightarrow> \<not> lua_isstring (vs ! j) \<Longrightarrow> list_all lua_isstring (take j vs) \<Longrightarrow>
   get_attrs_loop E arr i vs = Inl (InvalidValueNo (int i + int j + 1))"
proof (induction vs arbitrary: arr i j)
  case Nil
  then show ?case by simp
next
  case (Cons v vs)
  show ?case
  proof (cases j)
    case 0
    with Cons.prems show ?thesis by simp
  next
    case (Suc k)
    with Cons.prems have "k < length vs" "\<not> lua_isstring (vs ! k)" "list_all lua_isstring (take k vs)"
      and v: "lua_isstring v" by simp_all
    from Cons.IH[OF this(1-3), of "arr[i := lua_tostring E v]" "Suc i"] v Suc
    show ?thesis by simp
  qed
qed

lemma length_elements [simp]: "length (elements v) = lua_rawlen v"
  by (simp add: elements_def)

lemma lua_tostring_isstring: "lua_isstring v \<Longrightarrow> \<exists>s. lua_tostring E v = Some s"
  by (cases v) (simp_all add: lua_tostring_def)

lemma until_null_strings:
  "list_all lua_isstring vs \<Longrightarrow>
   until_null (map (lua_tostring E) vs @ None # rest) = map (\<lambda>x. the (lua_tostring E x)) vs"
  by (induction vs) (auto dest: lua_tostring_isstring[where E = E])

lemma get_attrs_param_strings:
  assumes v: "lua_getfield (arg args 2) ''attrs'' = v" "lua_istable v"
    and len: "length arr = LUALDAP_MAX_ATTRS"
    and n: "lua_rawlen v + 1 \<le> LUALDAP_MAX_ATTRS"
    and s: "list_all lua_isstring (elements v)"
  shows "\<exists>arr'. get_attrs_param E arr args = Inr arr' \<and>
           until_null arr' = map (\<lambda>x. the (lua_tostring E x)) (elements v) \<and>
           arr' ! lua_rawlen v = None \<and> length arr' = LUALDAP_MAX_ATTRS"
proof -
  let ?n = "lua_rawlen v"
  let ?arr1 = "take 0 arr @ map (lua_tostring E) (elements v) @ drop (0 + ?n) arr"
  have nt: "\<not> lua_isstring v" using v(2) by (cases v) simp_all
  have l: "0 + length (elements v) \<le> length arr" using len n by simp
  have loop: "get_attrs_loop E arr 0 (elements v) = Inr ?arr1"
    using get_attrs_loop_ok[OF s l, of E] by simp
  have g: "get_attrs_param E arr args = Inr (?arr1[?n := None])"
    using v nt n loop by (simp add: get_attrs_param_def Let_def)
  have d: "drop ?n arr \<noteq> []" using len n by simp
  then obtain x xs where dx: "drop ?n arr = x # xs" by (cases "drop ?n arr") auto
  have upd: "?arr1[?n := None] = map (lua_tostring E) (elements v) @ None # xs"
    using dx by (simp add: list_update_append)
  have "until_null (?arr1[?n := None]) = map (\<lambda>x. the (lua_tostring E x)) (elements v)"
    unfolding upd by (rule until_null_strings[OF s])
  moreover have "(?arr1[?n := None]) ! ?n = None"
    unfolding upd by (simp add: nth_append)
  moreover have "length (?arr1[?n := None]) = LUALDAP_MAX_ATTRS"
    using len n by simp
  ultimately show ?thesis using g by blast
qed

text \<open>
  Claim C9, as the code has it: when the attrs option is a table of raw length \<open>n\<close>,
  \<open>n + 1 > LUALDAP_MAX_ATTRS\<close> raises "too many arguments"; otherwise, when every element
  is a string or a number, the array holds their \<open>n\<close> strings in order and \<open>NULL\<close> at
  index \<open>n\<close>, and the first element that is neither a string nor a number, at position
  \<open>i + 1\<close>, raises "invalid value #(i + 1)".  Either error leaves \<open>lualdap_search\<close>
  before anything is submitted.
\<close>

theorem attrs_option:
  assumes v: "lua_getfield (arg args 2) ''attrs'' = v" "lua_istable v"
    and len: "length arr = LUALDAP_MAX_ATTRS"
  shows "(LUALDAP_MAX_ATTRS < lua_rawlen v + 1 \<longrightarrow>
            get_attrs_param E arr args = Inl (LuaError (LUALDAP_PREFIX @ ''too many arguments'')))
       \<and> (lua_rawlen v + 1 \<le> LUALDAP_MAX_ATTRS \<and> list_all lua_isstring (elements v) \<longrightarrow>
            (\<exists>arr'. get_attrs_param E arr args = Inr arr' \<and>
               until_null arr' = map (\<lambda>x. the (lua_tostring E x)) (elements v) \<and>
               arr' ! lua_rawlen v = None \<and> length arr' = LUALDAP_MAX_ATTRS))
       \<and> (lua_rawlen v + 1 \<le> LUALDAP_MAX_ATTRS \<and> i < lua_rawlen v \<and>
          \<not> lua_isstring (elements v ! i) \<and> list_all lua_isstring (take i (elements v)) \<longrightarrow>
            get_attrs_param E arr args = Inl (InvalidValueNo (int i + 1)))
       \<and> (getconnection st args = Inr c \<and> lua_istable (arg args 2) \<and>
          get_attrs_param E arr args = Inl e \<longrightarrow>
            lualdap_search E arr reply p r st args = (Inl e, st))"
proof (intro conjI impI)
  have nt: "\<not> lua_isstring v" using v(2) by (cases v) simp_all
  {
    assume "LUALDAP_MAX_ATTRS < lua_rawlen v + 1"
    then show "get_attrs_param E arr args = Inl (LuaError (LUALDAP_PREFIX @ ''too many arguments''))"
      using v nt by (simp add: get_attrs_param_def Let_def)
  next
    assume "lua_rawlen v + 1 \<le> LUALDAP_MAX_ATTRS \<and> list_all lua_isstring (elements v)"
    then show "\<exists>arr'. get_attrs_param E arr args = Inr arr' \<and>
               until_null arr' = map (\<lambda>x. the (lua_tostring E x)) (elements v) \<and>
               arr' ! lua_rawlen v = None \<and> length arr' = LUALDAP_MAX_ATTRS"
      using get_attrs_param_strings[OF v len] by blast
  next
    assume h: "lua_rawlen v + 1 \<le> LUALDAP_MAX_ATTRS \<and> i < lua_rawlen v \<and>
          \<not> lua_isstring (elements v ! i) \<and> list_all lua_isstring (take i (elements v))"
    then have "get_attrs_loop E arr 0 (elements v) = Inl (InvalidValueNo (int 0 + int i + 1))"
      by (intro get_attrs_loop_bad) simp_all
    then show "get_attrs_param E arr args = Inl (InvalidValueNo (int i + 1))"
      using v nt h by (simp add: get_attrs_param_def Let_def)
  next
    assume "getconnection st args = Inr c \<and> lua_istable (arg args 2) \<and>
          get_attrs_param E arr args = Inl e"
    then show "lualdap_search E arr reply p r st args = (Inl e, st)"
      by (simp add: lualdap_search_def)
  }
qed


lemma map_of_seq:
  "map_of (map (\<lambda>i. (LNumber (int i + 1), f i)) [0 ..< n]) (LNumber (int k + 1))
     = (if k < n then Some (f k) else None)"
  by (induction n) (auto simp: map_add_def less_Suc_eq split: option.splits)

lemma rawgeti_seq:
  "lua_rawgeti (seq_table xs) (int k + 1) = (if k < length xs then xs ! k else LNil)"
  by (simp add: seq_table_def map_of_seq)

lemma border_seq:
  "list_all (\<lambda>x. \<not> lua_isnil x) xs \<Longrightarrow> n \<le> length xs \<Longrightarrow>
   border (seq_table xs) fuel n = min (n + fuel) (length xs)"
proof (induction fuel arbitrary: n)
  case 0
  then show ?case by simp
next
  case (Suc fuel)
  show ?case
  proof (cases "n < length xs")
    case True
    with Suc.prems have "\<not> lua_isnil (xs ! n)" by (simp add: list_all_length)
    with True Suc.IH[OF Suc.prems(1), of "Suc n"] show ?thesis
      by (simp add: rawgeti_seq)
  next
    case False
    with Suc.prems show ?thesis by (simp add: rawgeti_seq)
  qed
qed

lemma rawlen_seq:
  "list_all (\<lambda>x. \<not> lua_isnil x) xs \<Longrightarrow> lua_rawlen (seq_table xs) = length xs"
  using border_seq[of xs 0 "length xs"] by (simp add: seq_table_def)

lemma elements_seq:
  assumes "list_all (\<lambda>x. \<not> lua_isnil x) xs"
  shows "elements (seq_table xs) = xs"
proof (rule nth_equalityI)
  show "length (elements (seq_table xs)) = length xs"
    by (simp add: rawlen_seq[OF assms])
next
  fix i assume "i < length (elements (seq_table xs))"
  then have i: "i < length xs" by (simp add: rawlen_seq[OF assms])
  have "elements (seq_table xs) ! i = lua_rawgeti (seq_table xs) (int i + 1)"
    using i by (simp add: elements_def rawlen_seq[OF assms] nth_map_upt del: upt_Suc) (simp add: add.commute)
  then show "elements (seq_table xs) ! i = xs ! i" using i by (simp add: rawgeti_seq)
qed


lemma ex_getfield_attrs:
  "lua_getfield (arg [x, LTable [(LString ''attrs'', v)]] 2) ''attrs'' = v"
  by (simp add: arg_def)

lemma ex_arr_length: "length ex_arr = LUALDAP_MAX_ATTRS"
  by (simp add: ex_arr_def LUALDAP_MAX_ATTRS_def)

lemma seq_table_istable: "lua_istable (seq_table xs)"
  by (simp add: seq_table_def)

theorem attrs_option_witness:
  "get_attrs_param ex_extern ex_arr
      [LUserdata 10, LTable [(LString ''attrs'', seq_table (replicate 100 (LString ''cn'')))]]
     = Inl (LuaError ''LuaLDAP: too many arguments'')
   \<and> map_sum id until_null (get_attrs_param ex_extern ex_arr
        [LUserdata 10, LTable [(LString ''attrs'', seq_table [LString ''cn'', LString ''mail''])]])
     = Inr [''cn'', ''mail'']
   \<and> get_attrs_param ex_extern ex_arr
        [LUserdata 10, LTable [(LString ''attrs'', seq_table [LString ''cn'', LBool True])]]
     = Inl (InvalidValueNo 2)
   \<and> lualdap_search ex_extern ex_arr (0, 1) 20 30 ex_state
        [LUserdata 10, LTable [(LString ''attrs'', seq_table [LString ''cn'', LBool True])]]
     = (Inl (InvalidValueNo 2), ex_state)"
proof -
  let ?many = "seq_table (replicate 100 (LString ''cn''))"
  let ?ok = "seq_table [LString ''cn'', LString ''mail'']"
  let ?bad = "seq_table [LString ''cn'', LBool True]"
  have lm: "lua_rawlen ?many = 100" by (simp add: rawlen_seq list_all_length)
  have lo: "lua_rawlen ?ok = 2" and eo: "elements ?ok = [LString ''cn'', LString ''mail'']"
    by (simp_all add: rawlen_seq elements_seq)
  have lb: "lua_rawlen ?bad = 2" and eb: "elements ?bad = [LString ''cn'', LBool True]"
    by (simp_all add: rawlen_seq elements_seq)
  have 1: "get_attrs_param ex_extern ex_arr [LUserdata 10, LTable [(LString ''attrs'', ?many)]]
     = Inl (LuaError ''LuaLDAP: too many arguments'')"
    using attrs_option[OF ex_getfield_attrs[of "LUserdata 10" "seq_table (replicate 100 (LString ''cn''))"]
          seq_table_istable[of "replicate 100 (LString ''cn'')"] ex_arr_length, where E = ex_extern]
    by (simp add: lm LUALDAP_MAX_ATTRS_def LUALDAP_PREFIX_def)
  have 2: "map_sum id until_null (get_attrs_param ex_extern ex_arr
        [LUserdata 10, LTable [(LString ''attrs'', ?ok)]]) = Inr [''cn'', ''mail'']"
  proof -
    from attrs_option[OF ex_getfield_attrs[of "LUserdata 10" "seq_table ([LString ''cn'', LString ''mail''])"]
          seq_table_istable[of "[LString ''cn'', LString ''mail'']"] ex_arr_length, where E = ex_extern,
          THEN conjunct2, THEN conjunct1]
    obtain arr' where "get_attrs_param ex_extern ex_arr
        [LUserdata 10, LTable [(LString ''attrs'', seq_table [LString ''cn'', LString ''mail''])]] = Inr arr'"
      and "until_null arr' = [''cn'', ''mail'']"
      by (auto simp: lo eo LUALDAP_MAX_ATTRS_def lua_tostring_def cstr_def)
    then show ?thesis by simp
  qed
  have 3: "get_attrs_param ex_extern ex_arr [LUserdata 10, LTable [(LString ''attrs'', ?bad)]]
     = Inl (InvalidValueNo 2)"
    using attrs_option[OF ex_getfield_attrs[of "LUserdata 10" "seq_table ([LString ''cn'', LBool True])"]
          seq_table_istable[of "[LString ''cn'', LBool True]"] ex_arr_length, where E = ex_extern and i = 1]
    by (simp add: lb eb LUALDAP_MAX_ATTRS_def)
  have 4: "lualdap_search ex_extern ex_arr (0, 1) 20 30 ex_state
        [LUserdata 10, LTable [(LString ''attrs'', ?bad)]] = (Inl (InvalidValueNo 2), ex_state)"
    using attrs_option[OF ex_getfield_attrs[of "LUserdata 10" "seq_table [LString ''cn'', LBool True]"]
          seq_table_istable[of "[LString ''cn'', LBool True]"] ex_arr_length,
        where E = ex_extern and st = ex_state and e = "InvalidValueNo 2"] 3
    by (simp add: ex_getconnection arg_def)
  from 1 2 3 4 show ?thesis by blast
qed

text \<open>
  The claim as written fails for an element that is a number: it is no string, and it
  is accepted and converted.
\<close>

theorem attrs_number_counterexample:
  "lua_typename (LNumber 42) = ''number''
   \<and> map_sum id until_null (get_attrs_param ex_extern ex_arr
        [LUserdata 10, LTable [(LString ''attrs'', seq_table [LString ''cn'', LNumber 42])]])
     = Inr [''cn'', ''42'']"
proof -
  have l: "lua_rawlen (seq_table [LString ''cn'', LNumber 42]) = 2"
    and e: "elements (seq_table [LString ''cn'', LNumber 42]) = [LString ''cn'', LNumber 42]"
    by (simp_all add: rawlen_seq elements_seq)
  from get_attrs_param_strings[OF ex_getfield_attrs[of "LUserdata 10" "seq_table [LString ''cn'', LNumber 42]"]
      seq_table_istable[of "[LString ''cn'', LNumber 42]"] ex_arr_length, where E = ex_extern]
  obtain arr' where "get_attrs_param ex_extern ex_arr
        [LUserdata 10, LTable [(LString ''attrs'', seq_table [LString ''cn'', LNumber 42])]] = Inr arr'"
      and "until_null arr' = [''cn'', ''42'']"
    by (auto simp: l e LUALDAP_MAX_ATTRS_def lua_tostring_def cstr_def ex_extern_def)
  then show ?thesis by simp
qed

theorem scope_parsing_witness:
  "string2scope (Some ''xyz'') = Inl (InvalidScope ''xyz'')
   \<and> string2scope (Some ''subtree'') = Inr LDAP_SCOPE_SUBTREE
   \<and> string2scope (Some ''base'') = Inr LDAP_SCOPE_BASE
   \<and> string2scope (Some ''onelevel'') = Inr LDAP_SCOPE_ONELEVEL
   \<and> strtabparam ex_extern [LUserdata 10, LTable [(LString ''scope'', LString ''xyz'')]] ''scope'' None
       = Inr (Some ''xyz'')
   \<and> strtabparam ex_extern [LUserdata 10, LTable []] ''scope'' None = Inr None
   \<and> lualdap_search ex_extern ex_arr (0, 1) 20 30 ex_state
        [LUserdata 10, LTable [(LString ''scope'', LString ''xyz'')]]
       = (Inl (InvalidScope ''xyz''), ex_state)"
proof -
  let ?args = "[LUserdata 10, LTable [(LString ''scope'', LString ''xyz'')]]"
  have cs: "cstr ''xyz'' = CHR ''x'' # ''yz''" by (simp add: cstr_def)
  note w = scope_parsing[where str = "''xyz''" and c = "CHR ''x''" and rest = "''yz''" and E = ex_extern
      and arr = ex_arr and st = ex_state]
  have 1: "string2scope (Some ''xyz'') = Inl (InvalidScope ''xyz'')"
    using w cs by simp
  have 2: "string2scope (Some ''subtree'') = Inr LDAP_SCOPE_SUBTREE"
    using scope_parsing[where str = "''subtree''" and rest = "''ubtree''"] by (simp add: cstr_def)
  have s2: "string2scope (Some ''base'') = Inr LDAP_SCOPE_BASE"
    using scope_parsing[where str = "''base''" and rest = "''ase''"] by (simp add: cstr_def)
  have s3: "string2scope (Some ''onelevel'') = Inr LDAP_SCOPE_ONELEVEL"
    using scope_parsing[where str = "''onelevel''" and rest = "''nelevel''"] by (simp add: cstr_def)
  have 3: "strtabparam ex_extern ?args ''scope'' None = Inr (Some ''xyz'')"
    using w[where args = ?args] cs by (simp add: arg_def)
  have 4: "strtabparam ex_extern [LUserdata 10, LTable []] ''scope'' None = Inr None"
    using w[where args = "[LUserdata 10, LTable []]"] by (simp add: arg_def)
  have a: "get_attrs_param ex_extern ex_arr ?args = Inr (ex_arr[0 := None])"
    by (simp add: get_attrs_param_def arg_def)
  have b: "booltabparam ?args ''attrsonly'' 0 = Inr 0"
    by (simp add: booltabparam_def arg_def)
  have c: "strtabparam ex_extern ?args ''base'' None = Inr None"
    "strtabparam ex_extern ?args ''filter'' None = Inr None"
    by (simp_all add: strtabparam_def arg_def)
  have t: "lua_istable (arg ?args 2)" by (simp add: arg_def)
  have 5: "lualdap_search ex_extern ex_arr (0, 1) 20 30 ex_state ?args = (Inl (InvalidScope ''xyz''), ex_state)"
    using w[where args = ?args and s = "Some ''xyz''" and e = "InvalidScope ''xyz''"
        and cd = "\<lparr>version = 3, ld = Some 21\<rparr>" and at = "ex_arr[0 := None]" and ao = 0
        and b = None and f = None and reply = "(0, 1)" and p = 20 and r = 30]
      ex_getconnection[of "[LTable [(LString ''scope'', LString ''xyz'')]]"] t a b c 3 1
    by simp
  from 1 2 s2 s3 3 4 5 show ?thesis by blast
qed

section \<open>The capacity of the attribute structure\<close>

lemma A_setbval_counters:
  "A_setbval E a n v = Inr (a', p) \<Longrightarrow>
     ai a' = ai a \<and> vi a' = vi a \<and> bi a' = Suc (bi a) \<and> p = bi a \<and> bi a < LUALDAP_MAX_VALUES"
  by (auto simp: A_setbval_def split: if_splits option.splits)

lemma A_setval_counters:
  "A_setval E a n v = Inr a' \<Longrightarrow>
     ai a' = ai a \<and> vi a' = Suc (vi a) \<and> bi a' = Suc (bi a) \<and>
     vi a < LUALDAP_ARRAY_VALUES_SIZE \<and> bi a < LUALDAP_MAX_VALUES"
  by (auto simp: A_setval_def split: if_splits sum.splits dest!: A_setbval_counters)

lemma A_nullval_counters:
  "A_nullval a = Inr a' \<Longrightarrow>
     ai a' = ai a \<and> vi a' = Suc (vi a) \<and> bi a' = bi a \<and> vi a < LUALDAP_ARRAY_VALUES_SIZE"
  by (auto simp: A_nullval_def split: if_splits)

lemma A_setvals_counters:
  "A_setvals E a n vs = Inr a' \<Longrightarrow>
     ai a' = ai a \<and> vi a' = vi a + length vs \<and> bi a' = bi a + length vs"
proof (induction vs arbitrary: a)
  case Nil
  then show ?case by simp
next
  case (Cons v vs)
  then obtain a1 where s: "A_setval E a n v = Inr a1" and r: "A_setvals E a1 n vs = Inr a'"
    by (auto split: sum.splits)
  from A_setval_counters[OF s] Cons.IH[OF r] show ?case by simp
qed

lemma A_tab2val_ai:
  "A_tab2val E a n v = Inr (a', p) \<Longrightarrow> ai a' = ai a"
  by (auto simp: A_tab2val_def Let_def split: if_splits sum.splits
      dest!: A_setval_counters A_setvals_counters A_nullval_counters)

lemma A_setmod_ai:
  "A_setmod E a op n v = Inr a' \<Longrightarrow> ai a' = Suc (ai a) \<and> ai a < LUALDAP_MAX_ATTRS"
  by (auto simp: A_setmod_def Let_def split: if_splits sum.splits dest!: A_tab2val_ai)

lemma A_tab2mod_pairs_ai:
  "A_tab2mod_pairs E a kvs op = Inr a' \<Longrightarrow> ai a \<le> LUALDAP_MAX_ATTRS \<Longrightarrow>
     ai a' = ai a + length (filter (\<lambda>kv. attr_key E (fst kv)) kvs) \<and> ai a' \<le> LUALDAP_MAX_ATTRS"
proof (induction kvs arbitrary: a)
  case Nil
  then show ?case by simp
next
  case (Cons kv kvs)
  obtain k v where kv: "kv = (k, v)" by (cases kv)
  show ?case
  proof (cases "attr_key E k")
    case True
    with Cons.prems kv obtain a1 where
      s: "A_setmod E a op (the (lua_tostring E k)) v = Inr a1" and
      r: "A_tab2mod_pairs E a1 kvs op = Inr a'"
      by (auto split: sum.splits)
    from A_setmod_ai[OF s] have "ai a1 = Suc (ai a)" "ai a1 \<le> LUALDAP_MAX_ATTRS" by auto
    with Cons.IH[OF r] True kv show ?thesis by simp
  next
    case False
    with Cons.prems kv have r: "A_tab2mod_pairs E a kvs op = Inr a'" by simp
    from Cons.IH[OF r Cons.prems(2)] False kv show ?thesis by simp
  qed
qed

lemma A_tab2mod_ai:
  "A_tab2mod E a t op = Inr a' \<Longrightarrow> ai a \<le> LUALDAP_MAX_ATTRS \<Longrightarrow>
     ai a' = ai a + length (attr_pairs E t) \<and> ai a' \<le> LUALDAP_MAX_ATTRS"
  by (cases t) (auto simp: attr_pairs_def dest: A_tab2mod_pairs_ai)

lemma A_lastattr_ai:
  "A_lastattr a = Inr a' \<Longrightarrow> ai a < LUALDAP_MAX_ATTRS \<and> ai a' = Suc (ai a)"
  by (auto simp: A_lastattr_def split: if_splits)

lemma modify_loop_ai:
  "modify_loop E a gs p = Inr a' \<Longrightarrow> list_all lua_istable gs \<Longrightarrow> ai a \<le> LUALDAP_MAX_ATTRS \<Longrightarrow>
     ai a' = ai a + length (group_entries E gs) \<and> ai a' \<le> LUALDAP_MAX_ATTRS"
proof (induction gs arbitrary: a p)
  case Nil
  then show ?case by (simp add: group_entries_def)
next
  case (Cons g gs)
  from Cons.prems obtain a1 where
    s: "A_tab2mod E a g (op2code (lua_tostring E (lua_rawgeti g 1))) = Inr a1" and
    r: "modify_loop E a1 gs (p + 1) = Inr a'"
    by (auto simp: Let_def split: if_splits sum.splits)
  from A_tab2mod_ai[OF s Cons.prems(3)]
  have 1: "ai a1 = ai a + length (attr_pairs E g)" "ai a1 \<le> LUALDAP_MAX_ATTRS" by auto
  from Cons.prems have "list_all lua_istable gs" by simp
  from Cons.IH[OF r this 1(2)] 1 show ?case by (simp add: group_entries_def)
qed

lemma A_init_counters [simp]: "ai (A_init a) = 0" "vi (A_init a) = 0" "bi (A_init a) = 0"
  by (simp_all add: A_init_def)

lemma add_built_count:
  assumes "fst (lualdap_add E frame reply st args) = Inr r"
  shows "length (attr_pairs E (arg args 3)) < LUALDAP_MAX_ATTRS"
proof -
  from assms obtain a1 a2 where
    t: "(if lua_istable (arg args 3) then A_tab2mod E (A_init frame) (arg args 3) LUALDAP_MOD_ADD
         else Inr (A_init frame)) = Inr a1" and l: "A_lastattr a1 = Inr a2"
    by (auto simp: lualdap_add_def split: sum.splits)
  have "ai a1 = length (attr_pairs E (arg args 3))"
  proof (cases "lua_istable (arg args 3)")
    case True
    with t A_tab2mod_ai[of E "A_init frame" "arg args 3" LUALDAP_MOD_ADD a1] show ?thesis by simp
  next
    case False
    with t show ?thesis by (cases "arg args 3") (auto simp: attr_pairs_def)
  qed
  with A_lastattr_ai[OF l] show ?thesis by simp
qed

lemma modify_built_count:
  assumes "fst (lualdap_modify E frame reply st args) = Inr r"
  shows "length (group_entries E (groups args)) < LUALDAP_MAX_ATTRS"
proof -
  from assms obtain a1 a2 where
    t: "modify_loop E (A_init frame) (drop 2 args) 3 = Inr a1" and l: "A_lastattr a1 = Inr a2"
    by (auto simp: lualdap_modify_def split: sum.splits)
  from t have "modify_loop E (A_init frame) (groups args) 3 = Inr a1"
    unfolding groups_def by (simp add: modify_loop_takeWhile[symmetric])
  from modify_loop_ai[OF this groups_all_tables] have "ai a1 = length (group_entries E (groups args))"
    by simp
  with A_lastattr_ai[OF l] show ?thesis by simp
qed

text \<open>
  With values that are \<open>true\<close> or one string the value arrays never fill before the
  attribute array does, so the only error left is "too many attributes".
\<close>

lemma A_setmod_simple:
  assumes "simple_value v" "roomy a" "ai a < LUALDAP_MAX_ATTRS"
  shows "\<exists>a'. A_setmod E a op n v = Inr a' \<and> roomy a'"
proof (cases v)
  case (LBool b)
  with assms show ?thesis
    by (simp add: A_setmod_def A_tab2val_def roomy_def)
next
  case (LString s)
  with assms show ?thesis
    by (simp add: A_setmod_def A_tab2val_def A_setval_def A_setbval_def A_nullval_def roomy_def
        LUALDAP_MAX_ATTRS_def LUALDAP_ARRAY_VALUES_SIZE_def LUALDAP_MAX_VALUES_def)
qed (use assms in simp_all)

lemma A_tab2mod_pairs_simple:
  assumes "list_all (\<lambda>kv. simple_value (snd kv)) (filter (\<lambda>kv. attr_key E (fst kv)) kvs)" "roomy a"
    "ai a \<le> LUALDAP_MAX_ATTRS"
  shows "if ai a + length (filter (\<lambda>kv. attr_key E (fst kv)) kvs) \<le> LUALDAP_MAX_ATTRS
         then (\<exists>a'. A_tab2mod_pairs E a kvs op = Inr a' \<and> roomy a')
         else A_tab2mod_pairs E a kvs op = Inl too_many_attributes"
  using assms
proof (induction kvs arbitrary: a)
  case Nil
  then show ?case by simp
next
  case (Cons kv kvs)
  obtain k v where kv: "kv = (k, v)" by (cases kv)
  show ?case
  proof (cases "attr_key E k")
    case False
    with Cons kv show ?thesis by simp
  next
    case True
    show ?thesis
    proof (cases "ai a < LUALDAP_MAX_ATTRS")
      case False
      with True kv show ?thesis by (simp add: A_setmod_def)
    next
      case lt: True
      from Cons.prems True kv have sv: "simple_value v" by simp
      from A_setmod_simple[OF sv Cons.prems(2) lt]
      obtain a1 where s: "A_setmod E a op (the (lua_tostring E k)) v = Inr a1" and r1: "roomy a1"
        by blast
      from A_setmod_ai[OF s] have ai1: "ai a1 = Suc (ai a)" by simp
      from Cons.prems True kv
      have "list_all (\<lambda>kv. simple_value (snd kv)) (filter (\<lambda>kv. attr_key E (fst kv)) kvs)" by simp
      from Cons.IH[OF this r1] s ai1 lt True kv show ?thesis by simp
    qed
  qed
qed

lemma A_tab2mod_simple:
  assumes "lua_istable t" "list_all (\<lambda>kv. simple_value (snd kv)) (attr_pairs E t)" "roomy a"
    "ai a \<le> LUALDAP_MAX_ATTRS"
  shows "if ai a + length (attr_pairs E t) \<le> LUALDAP_MAX_ATTRS
         then (\<exists>a'. A_tab2mod E a t op = Inr a' \<and> roomy a')
         else A_tab2mod E a t op = Inl too_many_attributes"
proof (cases t)
  case (LTable kvs)
  with assms A_tab2mod_pairs_simple[of E kvs a op] show ?thesis by (simp add: attr_pairs_def)
qed (use assms in simp_all)

lemma modify_loop_simple:
  assumes "list_all lua_istable gs" "list_all (\<lambda>g. group_op E g \<noteq> LUALDAP_NO_OP) gs"
    "list_all (\<lambda>kv. simple_value (snd kv)) (group_entries E gs)" "roomy a"
    "ai a \<le> LUALDAP_MAX_ATTRS"
  shows "if ai a + length (group_entries E gs) \<le> LUALDAP_MAX_ATTRS
         then (\<exists>a'. modify_loop E a gs p = Inr a' \<and> roomy a')
         else modify_loop E a gs p = Inl too_many_attributes"
  using assms
proof (induction gs arbitrary: a p)
  case Nil
  then show ?case by (simp add: group_entries_def)
next
  case (Cons g gs)
  then have g: "lua_istable g" "group_op E g \<noteq> LUALDAP_NO_OP"
    "list_all (\<lambda>kv. simple_value (snd kv)) (attr_pairs E g)"
    and gs: "list_all lua_istable gs" "list_all (\<lambda>g. group_op E g \<noteq> LUALDAP_NO_OP) gs"
    "list_all (\<lambda>kv. simple_value (snd kv)) (group_entries E gs)"
    by (simp_all add: group_entries_def)
  note t = A_tab2mod_simple[OF g(1) g(3) Cons.prems(4,5), of "group_op E g"]
  have ge: "length (group_entries E (g # gs)) = length (attr_pairs E g) + length (group_entries E gs)"
    by (simp add: group_entries_def)
  show ?case
  proof (cases "ai a + length (attr_pairs E g) \<le> LUALDAP_MAX_ATTRS")
    case False
    with t g ge show ?thesis by (simp add: group_op_def)
  next
    case True
    with t obtain a1 where s: "A_tab2mod E a g (group_op E g) = Inr a1" and r1: "roomy a1" by auto
    from A_tab2mod_ai[OF s Cons.prems(5)]
    have 1: "ai a1 = ai a + length (attr_pairs E g)" "ai a1 \<le> LUALDAP_MAX_ATTRS" by auto
    from Cons.IH[OF gs r1 1(2), of "p + 1"] s 1 g ge show ?thesis
      by (simp add: group_op_def add.assoc)
  qed
qed

lemma roomy_init: "roomy (A_init a)"
  by (simp add: roomy_def)

text \<open>
  The error comes with \<open>LUALDAP_MAX_ATTRS\<close> attributes already, not only with one more:
  \<open>A_setmod\<close> takes the attribute number \<open>LUALDAP_MAX_ATTRS\<close>, and \<open>A_lastattr\<close> then
  finds \<open>ai >= LUALDAP_MAX_ATTRS\<close> and raises, although \<open>attrs\<close> has a slot left for the
  \<open>NULL\<close>.  A structure that is built holds fewer than \<open>LUALDAP_MAX_ATTRS\<close> attributes
  (\<open>add_built_count\<close>, \<open>modify_built_count\<close>).
\<close>

lemma add_too_many:
  assumes c: "getconnection st args = Inr c" and dn: "luaL_checkstring E args 2 = Inr dn"
    and n: "LUALDAP_MAX_ATTRS \<le> length (attr_pairs E (arg args 3))"
    and s: "list_all (\<lambda>kv. simple_value (snd kv)) (attr_pairs E (arg args 3))"
  shows "lualdap_add E frame reply st args = (Inl too_many_attributes, st)"
proof -
  have t: "lua_istable (arg args 3)"
    using n by (cases "arg args 3") (auto simp: attr_pairs_def LUALDAP_MAX_ATTRS_def)
  note r = A_tab2mod_simple[OF t s roomy_init, of frame LUALDAP_MOD_ADD]
  show ?thesis
  proof (cases "length (attr_pairs E (arg args 3)) = LUALDAP_MAX_ATTRS")
    case True
    with r obtain a1 where a1: "A_tab2mod E (A_init frame) (arg args 3) LUALDAP_MOD_ADD = Inr a1"
      by auto
    from A_tab2mod_ai[OF a1] True have "ai a1 = LUALDAP_MAX_ATTRS" by simp
    then have "A_lastattr a1 = Inl too_many_attributes" by (simp add: A_lastattr_def)
    with c dn t a1 show ?thesis by (simp add: lualdap_add_def)
  next
    case False
    with n r have "A_tab2mod E (A_init frame) (arg args 3) LUALDAP_MOD_ADD = Inl too_many_attributes"
      by simp
    with c dn t show ?thesis by (simp add: lualdap_add_def)
  qed
qed

lemma modify_too_many:
  assumes c: "getconnection st args = Inr c" and dn: "luaL_checkstring E args 2 = Inr dn"
    and n: "LUALDAP_MAX_ATTRS \<le> length (group_entries E (groups args))"
    and o: "list_all (\<lambda>g. group_op E g \<noteq> LUALDAP_NO_OP) (groups args)"
    and s: "list_all (\<lambda>kv. simple_value (snd kv)) (group_entries E (groups args))"
  shows "lualdap_modify E frame reply st args = (Inl too_many_attributes, st)"
proof -
  have m: "modify_loop E (A_init frame) (drop 2 args) 3 = modify_loop E (A_init frame) (groups args) 3"
    unfolding groups_def by (rule modify_loop_takeWhile)
  note r = modify_loop_simple[OF groups_all_tables o s roomy_init, of frame 3]
  show ?thesis
  proof (cases "length (group_entries E (groups args)) = LUALDAP_MAX_ATTRS")
    case True
    with r obtain a1 where a1: "modify_loop E (A_init frame) (groups args) 3 = Inr a1"
      by auto
    from modify_loop_ai[OF a1 groups_all_tables] True have "ai a1 = LUALDAP_MAX_ATTRS" by simp
    then have "A_lastattr a1 = Inl too_many_attributes" by (simp add: A_lastattr_def)
    with c dn m a1 show ?thesis by (simp add: lualdap_modify_def)
  next
    case False
    with n r have "modify_loop E (A_init frame) (groups args) 3 = Inl too_many_attributes"
      by simp
    with c dn m show ?thesis by (simp add: lualdap_modify_def)
  qed
qed

text \<open>
  Claim C1, as the code has it: an add or modify that gets as far as submitting has
  built at most \<open>LUALDAP_MAX_ATTRS\<close> modifications, over all groups; with
  \<open>LUALDAP_MAX_ATTRS + 1\<close> or more the call raises instead of growing its arrays, and
  the error is "too many attributes" when the connection is open, the name is given,
  every group of modify has its operation sign and every value is \<open>true\<close> or one
  string.  (With longer values "too many values" can come first, see below.)
\<close>

theorem changeset_capacity:
  "(fst (lualdap_add E frame reply st args) = Inr r \<longrightarrow>
      length (attr_pairs E (arg args 3)) \<le> LUALDAP_MAX_ATTRS)
   \<and> (fst (lualdap_modify E frame reply st args) = Inr r \<longrightarrow>
      length (group_entries E (groups args)) \<le> LUALDAP_MAX_ATTRS)
   \<and> (LUALDAP_MAX_ATTRS + 1 \<le> length (attr_pairs E (arg args 3)) \<longrightarrow>
      (\<exists>e. fst (lualdap_add E frame reply st args) = Inl e))
   \<and> (LUALDAP_MAX_ATTRS + 1 \<le> length (group_entries E (groups args)) \<longrightarrow>
      (\<exists>e. fst (lualdap_modify E frame reply st args) = Inl e))
   \<and> (getconnection st args = Inr c \<and> luaL_checkstring E args 2 = Inr dn \<and>
      LUALDAP_MAX_ATTRS + 1 \<le> length (attr_pairs E (arg args 3)) \<and>
      list_all (\<lambda>kv. simple_value (snd kv)) (attr_pairs E (arg args 3)) \<longrightarrow>
      lualdap_add E frame reply st args = (Inl too_many_attributes, st))
   \<and> (getconnection st args = Inr c \<and> luaL_checkstring E args 2 = Inr dn \<and>
      LUALDAP_MAX_ATTRS + 1 \<le> length (group_entries E (groups args)) \<and>
      list_all (\<lambda>g. group_op E g \<noteq> LUALDAP_NO_OP) (groups args) \<and>
      list_all (\<lambda>kv. simple_value (snd kv)) (group_entries E (groups args)) \<longrightarrow>
      lualdap_modify E frame reply st args = (Inl too_many_attributes, st))"
proof (intro conjI impI)
  assume "fst (lualdap_add E frame reply st args) = Inr r"
  from add_built_count[OF this] show "length (attr_pairs E (arg args 3)) \<le> LUALDAP_MAX_ATTRS" by simp
next
  assume "fst (lualdap_modify E frame reply st args) = Inr r"
  from modify_built_count[OF this] show "length (group_entries E (groups args)) \<le> LUALDAP_MAX_ATTRS"
    by simp
next
  assume n: "LUALDAP_MAX_ATTRS + 1 \<le> length (attr_pairs E (arg args 3))"
  show "\<exists>e. fst (lualdap_add E frame reply st args) = Inl e"
  proof (cases "fst (lualdap_add E frame reply st args)")
    case (Inr r')
    from add_built_count[OF this] n show ?thesis by simp
  qed simp
next
  assume n: "LUALDAP_MAX_ATTRS + 1 \<le> length (group_entries E (groups args))"
  show "\<exists>e. fst (lualdap_modify E frame reply st args) = Inl e"
  proof (cases "fst (lualdap_modify E frame reply st args)")
    case (Inr r')
    from modify_built_count[OF this] n show ?thesis by simp
  qed simp
next
  assume "getconnection st args = Inr c \<and> luaL_checkstring E args 2 = Inr dn \<and>
      LUALDAP_MAX_ATTRS + 1 \<le> length (attr_pairs E (arg args 3)) \<and>
      list_all (\<lambda>kv. simple_value (snd kv)) (attr_pairs E (arg args 3))"
  then show "lualdap_add E frame reply st args = (Inl too_many_attributes, st)"
    by (intro add_too_many) simp_all
next
  assume "getconnection st args = Inr c \<and> luaL_checkstring E args 2 = Inr dn \<and>
      LUALDAP_MAX_ATTRS + 1 \<le> length (group_entries E (groups args)) \<and>
      list_all (\<lambda>g. group_op E g \<noteq> LUALDAP_NO_OP) (groups args) \<and>
      list_all (\<lambda>kv. simple_value (snd kv)) (group_entries E (groups args))"
  then show "lualdap_modify E frame reply st args = (Inl too_many_attributes, st)"
    by (intro modify_too_many) simp_all
qed

text \<open>
  Attributes with two values each fill \<open>bvals\<close> after 50 of them: the attribute number
  51 raises "too many values", whatever follows.
\<close>

lemma seq_table_type [simp]:
  "lua_istable (seq_table xs)" "\<not> lua_isstring (seq_table xs)" "\<not> lua_isboolean (seq_table xs)"
  by (simp_all add: seq_table_def)

lemma elements_two: "elements (seq_table [LString x, LString y]) = [LString x, LString y]"
  by (simp add: elements_seq)

lemma A_setmod_two_overflow:
  assumes "ai a < LUALDAP_MAX_ATTRS" "vi a < LUALDAP_ARRAY_VALUES_SIZE" "LUALDAP_MAX_VALUES \<le> bi a"
  shows "A_setmod E a op n (seq_table [LString x, LString y]) = Inl too_many_values"
  using assms
  by (simp add: A_setmod_def A_tab2val_def elements_two A_setval_def A_setbval_def)

lemma A_setmod_two:
  assumes "ai a < LUALDAP_MAX_ATTRS" "vi a + 3 \<le> LUALDAP_ARRAY_VALUES_SIZE"
    "bi a + 2 \<le> LUALDAP_MAX_VALUES"
  shows "\<exists>a'. A_setmod E a op n (seq_table [LString x, LString y]) = Inr a' \<and>
           ai a' = ai a + 1 \<and> vi a' = vi a + 3 \<and> bi a' = bi a + 2"
  using assms
  by (simp add: A_setmod_def A_tab2val_def elements_two A_setval_def A_setbval_def A_nullval_def)

lemma fat_pairs:
  assumes "vi a = 3 * ai a" "bi a = 2 * ai a" "ai a \<le> 50"
    and "list_all (\<lambda>k. attr_key E (LString k)) ks"
  shows "if ai a + length ks \<le> 50
         then (\<exists>a'. A_tab2mod_pairs E a (map (\<lambda>k. (LString k, seq_table [LString x, LString y])) ks) op
                   = Inr a')
         else A_tab2mod_pairs E a (map (\<lambda>k. (LString k, seq_table [LString x, LString y])) ks) op
                   = Inl too_many_values"
  using assms
proof (induction ks arbitrary: a)
  case Nil
  then show ?case by simp
next
  case (Cons k ks)
  then have k: "attr_key E (LString k)" and ks: "list_all (\<lambda>k. attr_key E (LString k)) ks" by simp_all
  show ?case
  proof (cases "ai a < 50")
    case False
    with Cons.prems have "ai a = 50" by simp
    with Cons.prems have "ai a < LUALDAP_MAX_ATTRS" "vi a < LUALDAP_ARRAY_VALUES_SIZE"
      "LUALDAP_MAX_VALUES \<le> bi a"
      by (simp_all add: LUALDAP_MAX_ATTRS_def LUALDAP_ARRAY_VALUES_SIZE_def LUALDAP_MAX_VALUES_def)
    from A_setmod_two_overflow[OF this] k \<open>ai a = 50\<close> show ?thesis by simp
  next
    case True
    with Cons.prems have "ai a < LUALDAP_MAX_ATTRS" "vi a + 3 \<le> LUALDAP_ARRAY_VALUES_SIZE"
      "bi a + 2 \<le> LUALDAP_MAX_VALUES"
      by (simp_all add: LUALDAP_MAX_ATTRS_def LUALDAP_ARRAY_VALUES_SIZE_def LUALDAP_MAX_VALUES_def)
    from A_setmod_two[OF this, of E op "the (lua_tostring E (LString k))" x y]
    obtain a1 where s: "A_setmod E a op (the (lua_tostring E (LString k))) (seq_table [LString x, LString y]) = Inr a1"
      and c: "ai a1 = ai a + 1" "vi a1 = vi a + 3" "bi a1 = bi a + 2" by blast
    from c Cons.prems True have "vi a1 = 3 * ai a1" "bi a1 = 2 * ai a1" "ai a1 \<le> 50" by simp_all
    from Cons.IH[OF this ks] s c k show ?thesis by simp
  qed
qed

lemma ex_names_keys: "list_all (\<lambda>k. attr_key ex_extern (LString k)) (ex_names n)"
  by (simp add: ex_names_def list_all_iff attr_key_def ex_extern_def)

lemma ex_table_pairs: "attr_pairs ex_extern (ex_table n v) = map (\<lambda>k. (LString k, v)) (ex_names n)"
proof -
  have "filter (\<lambda>kv. attr_key ex_extern (fst kv)) (map (\<lambda>k. (LString k, v)) (ex_names n))
          = map (\<lambda>k. (LString k, v)) (ex_names n)"
    using ex_names_keys[of n] by (simp add: filter_map o_def list_all_iff)
  then show ?thesis by (simp add: attr_pairs_def ex_table_def)
qed

lemma ex_group_pairs: "attr_pairs ex_extern (ex_group sign n v) = map (\<lambda>k. (LString k, v)) (ex_names n)"
proof -
  have "filter (\<lambda>kv. attr_key ex_extern (fst kv)) (map (\<lambda>k. (LString k, v)) (ex_names n))
          = map (\<lambda>k. (LString k, v)) (ex_names n)"
    using ex_names_keys[of n] by (simp add: filter_map o_def list_all_iff)
  then show ?thesis by (simp add: attr_pairs_def ex_group_def attr_key_def)
qed

lemma ex_names_length [simp]: "length (ex_names n) = n"
  by (simp add: ex_names_def)

text \<open>
  The claim as written fails for 101 attributes of two values each: the error is "too
  many values", raised at the attribute number 51.
\<close>

theorem capacity_values_counterexample:
  "length (attr_pairs ex_extern (ex_table 101 (seq_table [LString ''u'', LString ''v''])))
     = LUALDAP_MAX_ATTRS + 1
   \<and> fst (lualdap_add ex_extern ex_frame (0, 7) ex_state
         [LUserdata 10, LString ''cn=x'', ex_table 101 (seq_table [LString ''u'', LString ''v''])])
     = Inl too_many_values
   \<and> too_many_values \<noteq> too_many_attributes"
proof -
  let ?t = "ex_table 101 (seq_table [LString ''u'', LString ''v''])"
  have 1: "length (attr_pairs ex_extern ?t) = LUALDAP_MAX_ATTRS + 1"
    by (simp add: ex_table_pairs LUALDAP_MAX_ATTRS_def)
  have "A_tab2mod_pairs ex_extern (A_init ex_frame)
          (map (\<lambda>k. (LString k, seq_table [LString ''u'', LString ''v''])) (ex_names 101)) LUALDAP_MOD_ADD
        = Inl too_many_values"
    using fat_pairs[OF _ _ _ ex_names_keys, of "A_init ex_frame" 101 "''u''" "''v''" LUALDAP_MOD_ADD]
    by simp
  then have "A_tab2mod ex_extern (A_init ex_frame) ?t LUALDAP_MOD_ADD = Inl too_many_values"
    by (simp add: ex_table_def)
  then have 2: "fst (lualdap_add ex_extern ex_frame (0, 7) ex_state [LUserdata 10, LString ''cn=x'', ?t])
      = Inl too_many_values"
    by (simp add: lualdap_add_def ex_getconnection ex_checkstring arg_def ex_table_def)
  have 3: "too_many_values \<noteq> too_many_attributes"
    by (simp add: too_many_values_def too_many_attributes_def)
  from 1 2 3 show ?thesis by blast
qed

lemma add_small:
  assumes c: "getconnection st args = Inr c" and dn: "luaL_checkstring E args 2 = Inr dn"
    and t: "lua_istable (arg args 3)"
    and n: "length (attr_pairs E (arg args 3)) < LUALDAP_MAX_ATTRS"
    and s: "list_all (\<lambda>kv. simple_value (snd kv)) (attr_pairs E (arg args 3))"
  shows "fst (lualdap_add E frame reply st args)
           = Inr (create_future E args (fst reply) 1 (snd reply) LDAP_RES_ADD)"
proof -
  from A_tab2mod_simple[OF t s roomy_init, of frame LUALDAP_MOD_ADD] n
  obtain a1 where a1: "A_tab2mod E (A_init frame) (arg args 3) LUALDAP_MOD_ADD = Inr a1"
    by auto
  from A_tab2mod_ai[OF a1] n have "ai a1 < LUALDAP_MAX_ATTRS" by simp
  then obtain a2 where "A_lastattr a1 = Inr a2" by (simp add: A_lastattr_def)
  with c dn t a1 show ?thesis by (simp add: lualdap_add_def)
qed

theorem changeset_capacity_witness:
  "lualdap_add ex_extern ex_frame (0, 7) ex_state
       [LUserdata 10, LString ''cn=x'', ex_table 101 (LBool True)]
     = (Inl too_many_attributes, ex_state)
   \<and> lualdap_modify ex_extern ex_frame (0, 7) ex_state
       [LUserdata 10, LString ''cn=x'', ex_group ''+'' 60 (LString ''v''), ex_group ''-'' 41 (LBool True)]
     = (Inl too_many_attributes, ex_state)
   \<and> LUALDAP_MAX_ATTRS + 1 \<le> length (attr_pairs ex_extern (ex_table 101 (LBool True)))
   \<and> LUALDAP_MAX_ATTRS + 1 \<le> length (group_entries ex_extern
        [ex_group ''+'' 60 (LString ''v''), ex_group ''-'' 41 (LBool True)])
   \<and> fst (lualdap_add ex_extern ex_frame (0, 7) ex_state
       [LUserdata 10, LString ''cn=x'', ex_table 2 (LString ''v'')])
     = Inr [LCClosure F_result_message [LUserdata 10, LNumber 7, LNumber LDAP_RES_ADD]]
   \<and> length (attr_pairs ex_extern (ex_table 2 (LString ''v''))) \<le> LUALDAP_MAX_ATTRS"
proof -
  let ?a = "[LUserdata 10, LString ''cn=x'', ex_table 101 (LBool True)]"
  let ?m = "[LUserdata 10, LString ''cn=x'', ex_group ''+'' 60 (LString ''v''), ex_group ''-'' 41 (LBool True)]"
  let ?s = "[LUserdata 10, LString ''cn=x'', ex_table 2 (LString ''v'')]"
  have a3: "arg ?a 3 = ex_table 101 (LBool True)" by (simp add: arg_def)
  have na: "LUALDAP_MAX_ATTRS + 1 \<le> length (attr_pairs ex_extern (ex_table 101 (LBool True)))"
    by (simp add: ex_table_pairs LUALDAP_MAX_ATTRS_def)
  have sa: "list_all (\<lambda>kv. simple_value (snd kv)) (attr_pairs ex_extern (ex_table 101 (LBool True)))"
    by (simp add: ex_table_pairs list_all_iff)
  have g: "groups ?m = [ex_group ''+'' 60 (LString ''v''), ex_group ''-'' 41 (LBool True)]"
    by (simp add: groups_def ex_group_def)
  have nm: "LUALDAP_MAX_ATTRS + 1 \<le> length (group_entries ex_extern
        [ex_group ''+'' 60 (LString ''v''), ex_group ''-'' 41 (LBool True)])"
    by (simp add: group_entries_def ex_group_pairs LUALDAP_MAX_ATTRS_def)
  have om: "list_all (\<lambda>g. group_op ex_extern g \<noteq> LUALDAP_NO_OP)
        [ex_group ''+'' 60 (LString ''v''), ex_group ''-'' 41 (LBool True)]"
    by (simp add: group_op_def ex_group_def lua_tostring_def cstr_def LUALDAP_ops LUALDAP_NO_OP_def)
  have sm: "list_all (\<lambda>kv. simple_value (snd kv)) (group_entries ex_extern
        [ex_group ''+'' 60 (LString ''v''), ex_group ''-'' 41 (LBool True)])"
    by (auto simp: group_entries_def ex_group_pairs list_all_iff)
  note w = changeset_capacity[where E = ex_extern and st = ex_state and frame = ex_frame
      and reply = "(0, 7)" and c = "\<lparr>version = 3, ld = Some 21\<rparr>" and dn = "''cn=x''"]
  have 1: "lualdap_add ex_extern ex_frame (0, 7) ex_state ?a = (Inl too_many_attributes, ex_state)"
    using w[where args = ?a] na sa a3 ex_getconnection[of "tl ?a"] ex_checkstring[of ex_extern "hd ?a" "[ex_table 101 (LBool True)]"]
    by simp
  have 2: "lualdap_modify ex_extern ex_frame (0, 7) ex_state ?m = (Inl too_many_attributes, ex_state)"
    using w[where args = ?m] nm om sm g ex_getconnection[of "tl ?m"]
      ex_checkstring[of ex_extern "hd ?m" "[ex_group ''+'' 60 (LString ''v''), ex_group ''-'' 41 (LBool True)]"]
    by simp
  have s3: "arg ?s 3 = ex_table 2 (LString ''v'')" by (simp add: arg_def)
  have ts: "lua_istable (arg ?s 3)" by (simp add: arg_def ex_table_def)
  have ns: "length (attr_pairs ex_extern (arg ?s 3)) < LUALDAP_MAX_ATTRS"
    by (simp add: s3 ex_table_pairs LUALDAP_MAX_ATTRS_def)
  have ss: "list_all (\<lambda>kv. simple_value (snd kv)) (attr_pairs ex_extern (arg ?s 3))"
    by (simp add: s3 ex_table_pairs list_all_iff)
  have 3: "fst (lualdap_add ex_extern ex_frame (0, 7) ex_state ?s)
     = Inr [LCClosure F_result_message [LUserdata 10, LNumber 7, LNumber LDAP_RES_ADD]]"
    using add_small[OF ex_getconnection ex_checkstring ts ns ss, of ex_frame "(0, 7)"]
    by (simp add: create_future_def LDAP_SUCCESS_def arg_def)
  have 4: "length (attr_pairs ex_extern (ex_table 2 (LString ''v''))) \<le> LUALDAP_MAX_ATTRS"
    using w[where args = ?s and r = "[LCClosure F_result_message [LUserdata 10, LNumber 7, LNumber LDAP_RES_ADD]]",
        THEN conjunct1] 3 s3 by simp
  from 1 2 3 4 na nm show ?thesis by blast
qed

section \<open>What the builder stores\<close>

lemma inv_lengths:
  "inv a \<Longrightarrow> length (Vp a) = vi a \<and> length (Bp a) = bi a"
  by (simp add: inv_def frame_ok_def Vp_def Bp_def)

lemma step_counters:
  "inv a \<Longrightarrow> step a a' X Y \<Longrightarrow> vi a' = vi a + length X \<and> bi a' = bi a + length Y"
  using inv_lengths[of a] inv_lengths[of a'] by (auto simp: step_def)

lemma step_refl: "inv a \<Longrightarrow> step a a [] []"
  by (simp add: step_def)

lemma step_trans:
  "step a a1 X Y \<Longrightarrow> step a1 a2 X' Y' \<Longrightarrow> step a a2 (X @ X') (Y @ Y')"
  by (simp add: step_def)

lemma take_Suc_update:
  "i < length xs \<Longrightarrow> take (Suc i) (xs[i := x]) = take i xs @ [x]"
  by (simp add: take_Suc_conv_app_nth)

lemma lua_tolstring_isstring: "lua_isstring v \<Longrightarrow> \<exists>s. lua_tolstring E v = Some s"
  by (cases v) simp_all

lemma A_setval_ok:
  assumes "inv a" "vi a < LUALDAP_ARRAY_VALUES_SIZE" "bi a < LUALDAP_MAX_VALUES" "lua_isstring v"
  shows "\<exists>a'. A_setval E a n v = Inr a' \<and> step a a' [Some (bi a)] [mk_bval E v]"
proof -
  from lua_tolstring_isstring[OF assms(4)] obtain s where s: "lua_tolstring E v = Some s" by blast
  let ?a' = "a\<lparr>bvals := (bvals a)[bi a := \<lparr>bv_len = length s, bv_val = s\<rparr>], bi := bi a + 1,
               values' := (values' a)[vi a := Some (bi a)], vi := vi a + 1\<rparr>"
  have r: "A_setval E a n v = Inr ?a'"
    using assms s by (simp add: A_setval_def A_setbval_def)
  have lv: "vi a < length (values' a)" and lb: "bi a < length (bvals a)"
    using assms by (simp_all add: inv_def frame_ok_def)
  have "step a ?a' [Some (bi a)] [mk_bval E v]"
    using assms s lv lb
    by (simp add: step_def inv_def frame_ok_def Vp_def Bp_def mk_bval_def take_Suc_update)
  with r show ?thesis by blast
qed

lemma A_nullval_ok:
  assumes "inv a" "vi a < LUALDAP_ARRAY_VALUES_SIZE"
  shows "\<exists>a'. A_nullval a = Inr a' \<and> step a a' [None] []"
proof -
  let ?a' = "a\<lparr>values' := (values' a)[vi a := None], vi := vi a + 1\<rparr>"
  have r: "A_nullval a = Inr ?a'" using assms by (simp add: A_nullval_def)
  have lv: "vi a < length (values' a)" using assms by (simp add: inv_def frame_ok_def)
  have "step a ?a' [None] []"
    using assms lv by (simp add: step_def inv_def frame_ok_def Vp_def Bp_def take_Suc_update)
  with r show ?thesis by blast
qed

lemma A_setvals_ok:
  assumes "inv a" "vi a + length vs \<le> LUALDAP_ARRAY_VALUES_SIZE"
    "bi a + length vs \<le> LUALDAP_MAX_VALUES" "list_all lua_isstring vs"
  shows "\<exists>a'. A_setvals E a n vs = Inr a' \<and>
           step a a' (map Some [bi a ..< bi a + length vs]) (map (mk_bval E) vs)"
  using assms
proof (induction vs arbitrary: a)
  case Nil
  then show ?case by (simp add: step_refl)
next
  case (Cons v vs)
  then have c: "vi a < LUALDAP_ARRAY_VALUES_SIZE" "bi a < LUALDAP_MAX_VALUES" "lua_isstring v"
    and vs: "list_all lua_isstring vs" by simp_all
  from A_setval_ok[OF Cons.prems(1) c, of E n]
  obtain a1 where s: "A_setval E a n v = Inr a1" and st: "step a a1 [Some (bi a)] [mk_bval E v]"
    by blast
  from step_counters[OF Cons.prems(1) st] have k: "vi a1 = Suc (vi a)" "bi a1 = Suc (bi a)" by simp_all
  from st have i1: "inv a1" by (simp add: step_def)
  from Cons.prems k have "vi a1 + length vs \<le> LUALDAP_ARRAY_VALUES_SIZE"
    "bi a1 + length vs \<le> LUALDAP_MAX_VALUES" by simp_all
  from Cons.IH[OF i1 this vs]
  obtain a' where r: "A_setvals E a1 n vs = Inr a'"
    and st': "step a1 a' (map Some [bi a1 ..< bi a1 + length vs]) (map (mk_bval E) vs)" by blast
  have "[bi a ..< bi a + length (v # vs)] = bi a # [bi a1 ..< bi a1 + length vs]"
    using k by (simp add: upt_conv_Cons del: upt_Suc)
  with step_trans[OF st st'] s r show ?case by simp
qed

lemma A_tab2val_ok:
  assumes i: "inv a" and w: "well_shaped v"
    and c: "vi a + need_slots v \<le> LUALDAP_ARRAY_VALUES_SIZE" "bi a + need_bvals v \<le> LUALDAP_MAX_VALUES"
  shows "\<exists>a'. A_tab2val E a n v = Inr (a', map_option (\<lambda>_. vi a) (value_list v)) \<and>
           step a a' (slots_for (bi a) (value_list v)) (bvals_for E (value_list v))"
proof (cases "lua_isboolean v \<and> lua_toboolean v = 1")
  case True
  then show ?thesis using i by (simp add: A_tab2val_def value_list_def step_refl slots_for_def bvals_for_def)
next
  case nb: False
  show ?thesis
  proof (cases "lua_isstring v")
    case True
    with nb have vl: "value_list v = Some [v]" by (simp add: value_list_def)
    with c have c1: "vi a < LUALDAP_ARRAY_VALUES_SIZE" "bi a < LUALDAP_MAX_VALUES"
      by (simp_all add: need_slots_def need_bvals_def)
    from A_setval_ok[OF i c1 True, of E n]
    obtain a1 where s: "A_setval E a n v = Inr a1" and st: "step a a1 [Some (bi a)] [mk_bval E v]"
      by blast
    from st have i1: "inv a1" by (simp add: step_def)
    from step_counters[OF i st] c vl have "vi a1 < LUALDAP_ARRAY_VALUES_SIZE"
      by (simp add: need_slots_def)
    from A_nullval_ok[OF i1 this]
    obtain a2 where nl: "A_nullval a1 = Inr a2" and st2: "step a1 a2 [None] []" by blast
    from step_trans[OF st st2] s nl nb True vl show ?thesis
      by (auto simp: A_tab2val_def slots_for_def bvals_for_def)
  next
    case ns: False
    with nb w have t: "lua_istable v" and es: "list_all lua_isstring (elements v)"
      by (auto simp: well_shaped_def)
    from nb ns have vl: "value_list v = Some (elements v)" by (simp add: value_list_def)
    with c have c1: "vi a + length (elements v) \<le> LUALDAP_ARRAY_VALUES_SIZE"
      "bi a + length (elements v) \<le> LUALDAP_MAX_VALUES"
      by (simp_all add: need_slots_def need_bvals_def)
    from A_setvals_ok[OF i c1 es, of E n]
    obtain a1 where s: "A_setvals E a n (elements v) = Inr a1"
      and st: "step a a1 (map Some [bi a ..< bi a + length (elements v)]) (map (mk_bval E) (elements v))"
      by blast
    from st have i1: "inv a1" by (simp add: step_def)
    from step_counters[OF i st] c vl have "vi a1 < LUALDAP_ARRAY_VALUES_SIZE"
      by (simp add: need_slots_def)
    from A_nullval_ok[OF i1 this]
    obtain a2 where nl: "A_nullval a1 = Inr a2" and st2: "step a1 a2 [None] []" by blast
    from step_trans[OF st st2] s nl nb ns t vl show ?thesis
      by (auto simp: A_tab2val_def slots_for_def bvals_for_def)
  qed
qed

lemma until_null_Somes [simp]: "until_null (map Some xs @ None # ys) = xs"
  by (induction xs) simp_all

lemma until_null_append: "None \<in> set xs \<Longrightarrow> until_null (xs @ ys) = until_null xs"
  by (induction xs) (auto simp: until_null_def)

lemma closed_ext:
  assumes "closed V B s"
  shows "closed (V @ V') (B @ B') s \<and> vals_of (V @ V') (B @ B') s = vals_of V B s"
proof -
  from assms have s: "s \<le> length V" and n: "None \<in> set (drop s V)"
    and b: "list_all (\<lambda>j. j < length B) (until_null (drop s V))" by (simp_all add: closed_def)
  have u: "until_null (drop s (V @ V')) = until_null (drop s V)"
    using s n by (simp add: until_null_append)
  have "vals_of (V @ V') (B @ B') s = map (\<lambda>j. bytes_of ((B @ B') ! j)) (until_null (drop s V))"
    by (simp only: vals_of_def u)
  also have "\<dots> = vals_of V B s"
    using b by (auto simp: vals_of_def list_all_iff nth_append)
  finally have 1: "vals_of (V @ V') (B @ B') s = vals_of V B s" .
  have "None \<in> set (drop s (V @ V'))" using s n by simp
  moreover have "list_all (\<lambda>j. j < length (B @ B')) (until_null (drop s (V @ V')))"
    unfolding u using b by (auto simp: list_all_iff)
  ultimately have "closed (V @ V') (B @ B') s"
    using s unfolding closed_def by simp
  with 1 show ?thesis by simp
qed

lemma bytes_of_mk_bval: "bytes_of (mk_bval E v) = the (lua_tolstring E v)"
  by (simp add: bytes_of_def mk_bval_def Let_def)

lemma fresh_values:
  assumes "length V = s" "length B = b"
  shows "closed (V @ map Some [b ..< b + length Y] @ [None]) (B @ Y) s \<and>
         vals_of (V @ map Some [b ..< b + length Y] @ [None]) (B @ Y) s = map bytes_of Y"
proof -
  have d: "drop s (V @ map Some [b ..< b + length Y] @ [None]) = map Some [b ..< b + length Y] @ [None]"
    using assms by simp
  have "map (\<lambda>j. bytes_of ((B @ Y) ! j)) [b ..< b + length Y] = map bytes_of Y"
    using assms by (auto intro!: nth_equalityI simp: nth_append)
  then show ?thesis
    using assms by (simp add: closed_def vals_of_def d list_all_iff)
qed

lemma repr_step:
  assumes "repr a ws" "step a a' X Y"
  shows "repr a' ws"
  using assms closed_ext[of "Vp a" "Bp a" _ X Y]
  by (auto simp: repr_def repr_at_def step_def split: option.splits)

lemma A_setmod_ok:
  assumes r: "repr a ws" and lt: "ai a < LUALDAP_MAX_ATTRS" and w: "well_shaped v"
    and c: "vi a + need_slots v \<le> LUALDAP_ARRAY_VALUES_SIZE" "bi a + need_bvals v \<le> LUALDAP_MAX_VALUES"
  shows "\<exists>a'. A_setmod E a op n v = Inr a' \<and>
           repr a' (ws @ [\<lparr>w_op = op, w_type = n, w_vals = encode_value E v\<rparr>]) \<and>
           vi a' = vi a + need_slots v \<and> bi a' = bi a + need_bvals v"
proof -
  let ?a0 = "a\<lparr>mods := (mods a)[ai a := (mods a ! ai a)\<lparr>mod_op := op, mod_type := n\<rparr>]\<rparr>"
  let ?p = "map_option (\<lambda>_. vi a) (value_list v)"
  let ?X = "slots_for (bi a) (value_list v)"
  let ?Y = "bvals_for E (value_list v)"
  from r have i: "inv a" and lw: "length ws = ai a" and at: "\<forall>j < ai a. repr_at a (ws ! j) j"
    by (simp_all add: repr_def)
  from i lt have la: "ai a < length (attrs a)" and lm: "ai a < length (mods a)"
    by (simp_all add: inv_def frame_ok_def)
  have i0: "inv ?a0" using i by (simp add: inv_def frame_ok_def)
  have c0: "vi ?a0 + need_slots v \<le> LUALDAP_ARRAY_VALUES_SIZE" "bi ?a0 + need_bvals v \<le> LUALDAP_MAX_VALUES"
    using c by simp_all
  from A_tab2val_ok[OF i0 w c0, of E n]
  obtain a1 where t: "A_tab2val E ?a0 n v = Inr (a1, ?p)" and st: "step ?a0 a1 ?X ?Y"
    by auto
  from st have i1: "inv a1" and V1: "Vp a1 = Vp a @ ?X" and B1: "Bp a1 = Bp a @ ?Y"
    and m1: "mods a1 = mods ?a0" and t1: "attrs a1 = attrs a" and ai1: "ai a1 = ai a"
    by (simp_all add: step_def Vp_def Bp_def)
  let ?a' = "a1\<lparr>mods := (mods a1)[ai a1 := (mods a1 ! ai a1)\<lparr>mod_bvalues := ?p\<rparr>],
                attrs := (attrs a1)[ai a1 := Some (ai a1)], ai := ai a1 + 1\<rparr>"
  let ?w = "\<lparr>w_op = op, w_type = n, w_vals = encode_value E v\<rparr>"
  have res: "A_setmod E a op n v = Inr ?a'"
    using lt t by (simp add: A_setmod_def Let_def)
  have i': "inv ?a'" using i1 lt ai1 by (simp add: inv_def frame_ok_def)
  have V': "Vp ?a' = Vp a @ ?X" and B': "Bp ?a' = Bp a @ ?Y"
    using V1 B1 by (simp_all add: Vp_def Bp_def)
  have old: "repr_at ?a' ((ws @ [?w]) ! j) j" if j: "j < ai a" for j
  proof -
    from at j have o: "repr_at a (ws ! j) j" by simp
    have 1: "attrs ?a' ! j = attrs a ! j" and 2: "mods ?a' ! j = mods a ! j"
      using j by (simp_all add: ai1 t1 m1)
    have 3: "(ws @ [?w]) ! j = ws ! j" using j lw by (simp add: nth_append)
    show ?thesis
      using o closed_ext[of "Vp a" "Bp a" _ ?X ?Y]
      unfolding repr_at_def 1 2 3 V' B' by (auto split: option.splits)
  qed
  have new: "repr_at ?a' ((ws @ [?w]) ! ai a) (ai a)"
  proof -
    have 1: "attrs ?a' ! ai a = Some (ai a)" using la by (simp add: ai1 t1)
    have 2: "mods ?a' ! ai a = (mods a ! ai a)\<lparr>mod_op := op, mod_type := n, mod_bvalues := ?p\<rparr>"
      using lm by (simp add: ai1 m1)
    have 3: "(ws @ [?w]) ! ai a = ?w" using lw by (simp add: nth_append)
    show ?thesis
    proof (cases "value_list v")
      case None
      then show ?thesis unfolding repr_at_def 1 2 3 by (simp add: encode_value_def)
    next
      case (Some vs)
      from inv_lengths[OF i] have "length (Vp a) = vi a" "length (Bp a) = bi a" by simp_all
      from fresh_values[OF this, of "map (mk_bval E) vs"] Some
      have "closed (Vp ?a') (Bp ?a') (vi a)"
        and "vals_of (Vp ?a') (Bp ?a') (vi a) = map (\<lambda>x. the (lua_tolstring E x)) vs"
        unfolding V' B' by (simp_all add: bytes_of_mk_bval o_def slots_for_def bvals_for_def)
      with Some show ?thesis unfolding repr_at_def 1 2 3 by (simp add: encode_value_def)
    qed
  qed
  have "\<forall>j < ai ?a'. repr_at ?a' ((ws @ [?w]) ! j) j"
    using old new by (auto simp: ai1 less_Suc_eq)
  then have "repr ?a' (ws @ [?w])"
    using i' lw by (simp add: repr_def ai1)
  moreover from step_counters[OF i0 st]
  have "vi ?a' = vi a + need_slots v" "bi ?a' = bi a + need_bvals v"
    by (simp_all add: need_slots_def need_bvals_def slots_for_def bvals_for_def split: option.splits)
  ultimately show ?thesis using res by blast
qed

lemma A_tab2mod_pairs_ok:
  assumes "repr a ws"
    and "fits (ai a) (vi a) (bi a) (map snd (filter (\<lambda>kv. attr_key E (fst kv)) kvs))"
  shows "\<exists>a'. A_tab2mod_pairs E a kvs op = Inr a' \<and>
           repr a' (ws @ map (encode_pair E op) (filter (\<lambda>kv. attr_key E (fst kv)) kvs))"
  using assms
proof (induction kvs arbitrary: a ws)
  case Nil
  then show ?case by simp
next
  case (Cons kv kvs)
  obtain k v where kv: "kv = (k, v)" by (cases kv)
  show ?case
  proof (cases "attr_key E k")
    case False
    with Cons kv show ?thesis by simp
  next
    case True
    let ?rest = "map snd (filter (\<lambda>kv. attr_key E (fst kv)) kvs)"
    from Cons.prems(2) True kv
    have lt: "ai a < LUALDAP_MAX_ATTRS" and w: "well_shaped v"
      and c: "vi a + need_slots v \<le> LUALDAP_ARRAY_VALUES_SIZE" "bi a + need_bvals v \<le> LUALDAP_MAX_VALUES"
      by (simp_all add: fits_def)
    from A_setmod_ok[OF Cons.prems(1) lt w c, of E op "the (lua_tostring E k)"]
    obtain a1 where s: "A_setmod E a op (the (lua_tostring E k)) v = Inr a1"
      and r1: "repr a1 (ws @ [\<lparr>w_op = op, w_type = the (lua_tostring E k), w_vals = encode_value E v\<rparr>])"
      and k1: "vi a1 = vi a + need_slots v" "bi a1 = bi a + need_bvals v" by blast
    from r1 Cons.prems(1) have ai1: "ai a1 = Suc (ai a)" by (simp add: repr_def)
    from Cons.prems(2) True kv ai1 k1 have f1: "fits (ai a1) (vi a1) (bi a1) ?rest"
      by (simp add: fits_def add.assoc)
    from Cons.IH[OF r1 f1] s True kv show ?thesis
      by (simp add: encode_pair_def)
  qed
qed

lemma repr_init: "frame_ok frame \<Longrightarrow> repr (A_init frame) []"
  by (simp add: repr_def inv_def frame_ok_def A_init_def)

lemma until_null_index:
  assumes "n < length xs" "xs ! n = None" "\<forall>j < n. xs ! j = Some j"
  shows "until_null xs = [0 ..< n]"
proof -
  have t: "take n xs = map Some [0 ..< n]"
    using assms by (auto intro!: nth_equalityI)
  have "xs = take n xs @ xs ! n # drop (Suc n) xs"
    using assms(1) by (simp add: id_take_nth_drop)
  then have "xs = map Some [0 ..< n] @ None # drop (Suc n) xs"
    using t assms(2) by simp
  then have "until_null xs = until_null (map Some [0 ..< n] @ None # drop (Suc n) xs)" by simp
  then show ?thesis by (simp only: until_null_Somes)
qed

lemma view_values_vals_of: "view_values a s = vals_of (values' a) (bvals a) s"
  by (simp add: view_values_def vals_of_def)

lemma A_lastattr_view:
  assumes r: "repr a ws" and lt: "ai a < LUALDAP_MAX_ATTRS"
  shows "\<exists>a'. A_lastattr a = Inr a' \<and> view_attrs a' = ws"
proof -
  let ?a' = "a\<lparr>attrs := (attrs a)[ai a := None], ai := ai a + 1\<rparr>"
  from r have i: "inv a" and lw: "length ws = ai a" and at: "\<forall>j < ai a. repr_at a (ws ! j) j"
    by (simp_all add: repr_def)
  from i lt have la: "ai a < length (attrs a)" by (simp add: inv_def frame_ok_def)
  have res: "A_lastattr a = Inr ?a'" using lt by (simp add: A_lastattr_def)
  have "until_null (attrs ?a') = [0 ..< ai a]"
  proof (rule until_null_index)
    show "ai a < length (attrs ?a')" using la by simp
    show "attrs ?a' ! ai a = None" using la by simp
    show "\<forall>j < ai a. attrs ?a' ! j = Some j" using at by (simp add: repr_at_def)
  qed
  then have v: "view_attrs ?a' = map (\<lambda>j. view_mod ?a' (mods a ! j)) [0 ..< ai a]"
    by (simp add: view_attrs_def)
  have Vs: "values' a = Vp a @ drop (vi a) (values' a)" and Bs: "bvals a = Bp a @ drop (bi a) (bvals a)"
    by (simp_all add: Vp_def Bp_def)
  have "view_mod ?a' (mods a ! j) = ws ! j" if j: "j < ai a" for j
  proof -
    from at j have o: "repr_at a (ws ! j) j" by simp
    show ?thesis
    proof (cases "mod_bvalues (mods a ! j)")
      case None
      with o show ?thesis by (simp add: repr_at_def view_mod_def)
    next
      case (Some s)
      with o have cl: "closed (Vp a) (Bp a) s" and wv: "w_vals (ws ! j) = Some (vals_of (Vp a) (Bp a) s)"
        by (simp_all add: repr_at_def)
      have "view_values ?a' s = vals_of (Vp a @ drop (vi a) (values' a)) (Bp a @ drop (bi a) (bvals a)) s"
        using Vs Bs by (simp add: view_values_vals_of)
      also have "\<dots> = vals_of (Vp a) (Bp a) s"
        using closed_ext[OF cl] by simp
      finally show ?thesis using o Some wv by (simp add: repr_at_def view_mod_def)
    qed
  qed
  then have "map (\<lambda>j. view_mod ?a' (mods a ! j)) [0 ..< ai a] = ws"
    using lw by (auto intro!: nth_equalityI)
  with v res show ?thesis by simp
qed

text \<open>
  The builder is correct within its capacity: from any stack frame of the declared
  sizes, the modifications the library reads are the attributes of the table, in the
  order of the table, each with its values.
\<close>

lemma builder_view:
  assumes f: "frame_ok frame"
    and c: "fits 0 0 0 (map snd (attr_pairs E (LTable kvs)))"
  shows "\<exists>a1 a2. A_tab2mod E (A_init frame) (LTable kvs) op = Inr a1 \<and> A_lastattr a1 = Inr a2 \<and>
           view_attrs a2 = map (encode_pair E op) (attr_pairs E (LTable kvs))"
proof -
  from c have c': "fits (ai (A_init frame)) (vi (A_init frame)) (bi (A_init frame))
      (map snd (filter (\<lambda>kv. attr_key E (fst kv)) kvs))"
    by (simp add: attr_pairs_def)
  from A_tab2mod_pairs_ok[OF repr_init[OF f] c', of op]
  obtain a1 where t: "A_tab2mod_pairs E (A_init frame) kvs op = Inr a1"
    and r: "repr a1 (map (encode_pair E op) (filter (\<lambda>kv. attr_key E (fst kv)) kvs))" by auto
  from r have "ai a1 = length (filter (\<lambda>kv. attr_key E (fst kv)) kvs)" by (simp add: repr_def)
  with c have "ai a1 < LUALDAP_MAX_ATTRS" by (simp add: fits_def attr_pairs_def)
  from A_lastattr_view[OF r this] t show ?thesis by (auto simp: attr_pairs_def)
qed

section \<open>Encoding and decoding attribute values\<close>

lemma lua_rawset_new: "k \<notin> fst ` set t \<Longrightarrow> lua_rawset t k v = t @ [(k, v)]"
  by (induction t) auto

lemma set_attribs_loop_new:
  "distinct names \<Longrightarrow> (\<forall>n \<in> set names. LString n \<notin> fst ` set tab) \<Longrightarrow>
   set_attribs_loop entry names tab = tab @ map (\<lambda>n. (LString n, push_values entry n)) names"
proof (induction names arbitrary: tab)
  case Nil
  then show ?case by simp
next
  case (Cons n names)
  then have new: "LString n \<notin> fst ` set tab" and d: "distinct names" and nn: "n \<notin> set names"
    and rest: "\<forall>m \<in> set names. LString m \<notin> fst ` set tab" by simp_all
  have "\<forall>m \<in> set names. LString m \<notin> fst ` set (tab @ [(LString n, push_values entry n)])"
    using rest nn by auto
  from Cons.IH[OF d this] lua_rawset_new[OF new] show ?case by simp
qed

lemma bytes_of_as_bval [simp]: "bytes_of (as_bval s) = s"
  by (simp add: bytes_of_def as_bval_def)

lemma push_values_some:
  assumes "ldap_get_values_len entry attr = Some (map as_bval ss)"
  shows "push_values entry attr = decode_vals (Some ss)"
proof (cases ss)
  case Nil
  with assms show ?thesis by (simp add: push_values_def ldap_count_values_len_def)
next
  case (Cons x xs)
  show ?thesis
  proof (cases xs)
    case Nil
    with Cons assms show ?thesis
      by (simp add: push_values_def ldap_count_values_len_def lua_pushlstring_def)
  next
    case (Cons y ys)
    have "map (\<lambda>i. (LNumber (int i + 1), lua_pushlstring (map as_bval ss ! i))) [0 ..< length ss]
        = map (\<lambda>i. (LNumber (int i + 1), map LString ss ! i)) [0 ..< length ss]"
      by (simp add: lua_pushlstring_def)
    with Cons \<open>ss = x # xs\<close> assms show ?thesis
      by (simp add: push_values_def ldap_count_values_len_def seq_table_def Let_def)
  qed
qed

lemma push_values_entry_of:
  assumes "distinct (map w_type ms)" "m \<in> set ms"
  shows "push_values (entry_of dn ms) (w_type m) = decode_vals (w_vals m)"
proof -
  let ?f = "\<lambda>m. (w_type m, case w_vals m of None \<Rightarrow> [] | Some vs \<Rightarrow> map as_bval vs)"
  have dist: "distinct (map fst (map ?f ms))" using assms(1) by (simp add: o_def)
  have "(w_type m, snd (?f m)) \<in> set (map ?f ms)" using assms(2) by force
  then have "map_of (map ?f ms) (w_type m) = Some (snd (?f m))"
    using map_of_eq_Some_iff[OF dist] by blast
  then have g: "ldap_get_values_len (entry_of dn ms) (w_type m)
        = Some (case w_vals m of None \<Rightarrow> [] | Some vs \<Rightarrow> map as_bval vs)"
    by (simp add: ldap_get_values_len_def entry_of_def)
  show ?thesis
  proof (cases "w_vals m")
    case None
    with g have "ldap_get_values_len (entry_of dn ms) (w_type m) = Some (map as_bval [])" by simp
    from push_values_some[OF this] None show ?thesis by simp
  next
    case (Some vs)
    with g have "ldap_get_values_len (entry_of dn ms) (w_type m) = Some (map as_bval vs)" by simp
    from push_values_some[OF this] Some show ?thesis by simp
  qed
qed

lemma set_attribs_entry_of:
  assumes "distinct (map w_type ms)"
  shows "set_attribs (entry_of dn ms) [] = map (\<lambda>m. (LString (w_type m), decode_vals (w_vals m))) ms"
proof -
  have n: "map fst (entry_attrs (entry_of dn ms)) = map w_type ms"
    by (simp add: entry_of_def o_def)
  have "set_attribs (entry_of dn ms) []
      = map (\<lambda>n. (LString n, push_values (entry_of dn ms) n)) (map w_type ms)"
    unfolding set_attribs_def n using set_attribs_loop_new[OF assms, of "[]" "entry_of dn ms"] by simp
  also have "\<dots> = map (\<lambda>m. (LString (w_type m), decode_vals (w_vals m))) ms"
    using push_values_entry_of[OF assms] by (simp add: o_def)
  finally show ?thesis .
qed

lemma round_trip_eq:
  assumes f: "frame_ok frame"
    and c: "fits 0 0 0 (map snd (attr_pairs E (LTable kvs)))"
    and d: "distinct (map (\<lambda>kv. the (lua_tostring E (fst kv))) (attr_pairs E (LTable kvs)))"
  shows "round_trip E frame dn (LTable kvs) =
           Inr (LTable (map (\<lambda>kv. (LString (the (lua_tostring E (fst kv))),
                                   decode_vals (encode_value E (snd kv))))
                          (attr_pairs E (LTable kvs))))"
proof -
  from builder_view[OF f c, of LUALDAP_MOD_ADD]
  obtain a1 a2 where 1: "A_tab2mod E (A_init frame) (LTable kvs) LUALDAP_MOD_ADD = Inr a1"
    and 2: "A_lastattr a1 = Inr a2"
    and 3: "view_attrs a2 = map (encode_pair E LUALDAP_MOD_ADD) (attr_pairs E (LTable kvs))" by blast
  have "distinct (map w_type (view_attrs a2))"
    using d by (simp add: 3 o_def encode_pair_def)
  from set_attribs_entry_of[OF this, of dn] 1 2 show ?thesis
    unfolding round_trip_def by (simp add: 3 o_def encode_pair_def del: A_tab2mod.simps)
qed

lemma is_lstring_isstring: "is_lstring v \<Longrightarrow> lua_isstring v"
  by (cases v) simp_all

lemma is_lstring_back: "is_lstring v \<Longrightarrow> LString (the (lua_tolstring E v)) = v"
  by (cases v) simp_all

lemma mirror_value_shaped: "mirror_value v \<Longrightarrow> well_shaped v"
proof -
  assume m: "mirror_value v"
  then consider "v = LBool True" | "is_lstring v"
    | "list_all is_lstring (elements v)" "v = seq_table (elements v)"
    by (auto simp: mirror_value_def)
  then show ?thesis
  proof cases
    case 1
    then show ?thesis by (simp add: well_shaped_def)
  next
    case 2
    then show ?thesis by (simp add: well_shaped_def is_lstring_isstring)
  next
    case 3
    from 3(2) have "lua_istable v" by (metis seq_table_type(1))
    moreover from 3(1) have "list_all lua_isstring (elements v)"
      by (auto simp: list_all_iff is_lstring_isstring)
    ultimately show ?thesis by (simp add: well_shaped_def)
  qed
qed

lemma decode_encode:
  assumes "mirror_value v"
  shows "decode_vals (encode_value E v) = v"
proof -
  from assms consider "v = LBool True" | "is_lstring v"
    | "2 \<le> lua_rawlen v" "list_all is_lstring (elements v)" "v = seq_table (elements v)"
    by (auto simp: mirror_value_def)
  then show ?thesis
  proof cases
    case 1
    then show ?thesis by (simp add: encode_value_def value_list_def)
  next
    case 2
    then obtain s where "v = LString s" by (cases v) simp_all
    then show ?thesis by (simp add: encode_value_def value_list_def)
  next
    case 3
    from 3(3) have t: "\<not> lua_isboolean v" "\<not> lua_isstring v"
      by (metis seq_table_type(3)) (metis seq_table_type(2) 3(3))
    let ?ss = "map (\<lambda>x. the (lua_tolstring E x)) (elements v)"
    have e: "encode_value E v = Some ?ss" using t by (simp add: encode_value_def value_list_def)
    have bk: "map LString ?ss = elements v"
      using 3(2) by (auto intro!: nth_equalityI simp: list_all_length is_lstring_back)
    from 3(1) have len: "2 \<le> length ?ss" by simp
    then obtain x xs where xs: "?ss = x # xs" by (cases ?ss) auto
    with len obtain y zs where "xs = y # zs" by (cases xs) auto
    with xs have "?ss = x # y # zs" by simp
    then have "decode_vals (Some ?ss) = seq_table (map LString ?ss)" by simp
    with e bk 3(3) show ?thesis by simp
  qed
qed

lemma mirror_key_attr: "mirror_key E k \<Longrightarrow> attr_key E k \<and> LString (the (lua_tostring E k)) = k"
proof (cases k)
  case (LString name)
  assume "mirror_key E k"
  with LString have n: "str2number E name = None" and z: "list_all (\<lambda>c. c \<noteq> CHR 0x00) name" by simp_all
  from z have "cstr name = name" by (simp add: cstr_def list_all_iff)
  with n LString show ?thesis by (simp add: attr_key_def lua_tostring_def)
qed simp_all

text \<open>
  Claim C3, as the code has it: an attribute map with distinct attribute names for keys
  and, for values, \<open>true\<close>, a byte string or a sequence of at least two byte strings,
  that fits the capacity of the builder, is encoded and decoded back to itself.
\<close>

theorem round_trip_mirror:
  assumes f: "frame_ok frame"
    and d: "distinct (map fst kvs)"
    and m: "list_all (\<lambda>kv. mirror_key E (fst kv) \<and> mirror_value (snd kv)) kvs"
    and c: "within_capacity (map snd kvs)"
  shows "round_trip E frame dn (LTable kvs) = Inr (LTable kvs)"
proof -
  have key: "attr_key E (fst kv)" and name: "LString (the (lua_tostring E (fst kv))) = fst kv"
    and val: "mirror_value (snd kv)" if "kv \<in> set kvs" for kv
  proof -
    from m that have "mirror_key E (fst kv)" and v: "mirror_value (snd kv)"
      by (simp_all add: list_all_iff)
    from mirror_key_attr[OF this(1)] show "attr_key E (fst kv)"
      and "LString (the (lua_tostring E (fst kv))) = fst kv" by blast+
    from v show "mirror_value (snd kv)" .
  qed
  have "filter (\<lambda>kv. attr_key E (fst kv)) kvs = kvs"
    using key by (simp add: filter_id_conv)
  then have p: "attr_pairs E (LTable kvs) = kvs"
    by (simp add: attr_pairs_def)
  have "list_all well_shaped (map snd kvs)"
    using val mirror_value_shaped by (simp add: list_all_iff)
  with c have fit: "fits 0 0 0 (map snd (attr_pairs E (LTable kvs)))"
    by (simp add: p fits_def within_capacity_def)
  have "inj_on (\<lambda>kv. the (lua_tostring E (fst kv))) (set kvs)"
  proof (rule inj_onI)
    fix x y assume x: "x \<in> set kvs" and y: "y \<in> set kvs"
      and e: "the (lua_tostring E (fst x)) = the (lua_tostring E (fst y))"
    from name[OF x] name[OF y] e have "fst x = fst y" by metis
    moreover from d have "inj_on fst (set kvs)" by (simp add: distinct_map)
    ultimately show "x = y" using x y by (rule_tac inj_onD)
  qed
  moreover from d have "distinct kvs" by (simp add: distinct_map)
  ultimately have dn: "distinct (map (\<lambda>kv. the (lua_tostring E (fst kv))) (attr_pairs E (LTable kvs)))"
    by (simp add: p distinct_map)
  have "map (\<lambda>kv. (LString (the (lua_tostring E (fst kv))), decode_vals (encode_value E (snd kv)))) kvs = kvs"
  proof (rule map_idI)
    fix kv assume kv: "kv \<in> set kvs"
    from name[OF kv] decode_encode[OF val[OF kv], of E]
    show "(LString (the (lua_tostring E (fst kv))), decode_vals (encode_value E (snd kv))) = kv"
      by (simp add: prod_eq_iff)
  qed
  with round_trip_eq[OF f fit dn, of dn] show ?thesis by (simp only: p)
qed

lemma ex_frame_ok: "frame_ok ex_frame"
  by (simp add: frame_ok_def ex_frame_def LUALDAP_MAX_ATTRS_def LUALDAP_ARRAY_VALUES_SIZE_def
      LUALDAP_MAX_VALUES_def)

lemma need_simple [simp]:
  "need_slots (LBool True) = 0" "need_bvals (LBool True) = 0"
  "need_slots (LString s) = 2" "need_bvals (LString s) = 1"
  by (simp_all add: need_slots_def need_bvals_def value_list_def)

lemma need_seq:
  "list_all (\<lambda>x. \<not> lua_isnil x) xs \<Longrightarrow>
   need_slots (seq_table xs) = length xs + 1 \<and> need_bvals (seq_table xs) = length xs"
  by (simp add: need_slots_def need_bvals_def value_list_def elements_seq)

theorem round_trip_mirror_witness:
  "round_trip ex_extern ex_frame ''cn=test,dc=example''
     (LTable [(LString ''cn'', LString ''test''),
              (LString ''objectClass'', seq_table [LString ''top'', LString ''person'']),
              (LString ''seeAlso'', LBool True)])
   = Inr (LTable [(LString ''cn'', LString ''test''),
              (LString ''objectClass'', seq_table [LString ''top'', LString ''person'']),
              (LString ''seeAlso'', LBool True)])"
proof -
  let ?kvs = "[(LString ''cn'', LString ''test''),
              (LString ''objectClass'', seq_table [LString ''top'', LString ''person'']),
              (LString ''seeAlso'', LBool True)]"
  have d: "distinct (map fst ?kvs)" by simp
  have e: "elements (seq_table [LString ''top'', LString ''person'']) = [LString ''top'', LString ''person'']"
    and l: "lua_rawlen (seq_table [LString ''top'', LString ''person'']) = 2"
    by (simp_all add: elements_seq rawlen_seq)
  have m: "list_all (\<lambda>kv. mirror_key ex_extern (fst kv) \<and> mirror_value (snd kv)) ?kvs"
    by (simp add: mirror_value_def e l ex_extern_def)
  have c: "within_capacity (map snd ?kvs)"
    by (simp add: within_capacity_def need_seq LUALDAP_MAX_ATTRS_def LUALDAP_ARRAY_VALUES_SIZE_def
        LUALDAP_MAX_VALUES_def)
  from round_trip_mirror[OF ex_frame_ok d m c] show ?thesis .
qed

text \<open>
  The claim as written fails for a sequence of one string: it is encoded as a list of
  one value, like the string itself, and comes back as the string.
\<close>

theorem round_trip_single_counterexample:
  "round_trip ex_extern ex_frame ''cn=test,dc=example''
     (LTable [(LString ''cn'', seq_table [LString ''test''])])
   = Inr (LTable [(LString ''cn'', LString ''test'')])
   \<and> LTable [(LString ''cn'', seq_table [LString ''test''])] \<noteq> LTable [(LString ''cn'', LString ''test'')]"
proof -
  let ?kvs = "[(LString ''cn'', seq_table [LString ''test''])]"
  have e: "elements (seq_table [LString ''test'']) = [LString ''test'']"
    by (simp add: elements_seq)
  have p: "attr_pairs ex_extern (LTable ?kvs) = ?kvs"
    by (simp add: attr_pairs_def attr_key_def ex_extern_def)
  have fit: "fits 0 0 0 (map snd (attr_pairs ex_extern (LTable ?kvs)))"
    by (simp add: p fits_def need_seq well_shaped_def e LUALDAP_MAX_ATTRS_def
        LUALDAP_ARRAY_VALUES_SIZE_def LUALDAP_MAX_VALUES_def)
  have dn: "distinct (map (\<lambda>kv. the (lua_tostring ex_extern (fst kv))) (attr_pairs ex_extern (LTable ?kvs)))"
    by (simp add: p)
  have "round_trip ex_extern ex_frame ''cn=test,dc=example'' (LTable ?kvs)
      = Inr (LTable [(LString ''cn'', LString ''test'')])"
    using round_trip_eq[OF ex_frame_ok fit dn, of "''cn=test,dc=example''"]
    by (simp add: p encode_value_def value_list_def e lua_tostring_def cstr_def)
  moreover have "LTable ?kvs \<noteq> LTable [(LString ''cn'', LString ''test'')]"
    by (simp add: seq_table_def)
  ultimately show ?thesis by blast
qed

text \<open>
  The two halves are what the operations do: \<open>lualdap_add\<close> submits the modifications
  that \<open>round_trip\<close> encodes, and \<open>next_message\<close> returns the table it decodes.
\<close>

lemma round_trip_add:
  assumes c: "getconnection st args = Inr c"
    and dn: "luaL_checkstring E args 2 = Inr dn"
    and t: "arg args 3 = LTable kvs"
    and rt: "round_trip E frame dn' (LTable kvs) = Inr t'"
  shows "\<exists>ms. snd (lualdap_add E frame reply st args) = log_call (Call_add_ext (ld c) dn ms) st \<and>
           t' = LTable (set_attribs (entry_of dn' ms) [])"
proof -
  from rt obtain a1 a2 where 1: "A_tab2mod E (A_init frame) (LTable kvs) LUALDAP_MOD_ADD = Inr a1"
    and 2: "A_lastattr a1 = Inr a2"
    and 3: "t' = LTable (set_attribs (entry_of dn' (view_attrs a2)) [])"
    by (auto simp: round_trip_def simp del: A_tab2mod.simps split: sum.splits)
  from c dn t 1 2 have "snd (lualdap_add E frame reply st args)
      = log_call (Call_add_ext (ld c) dn (view_attrs a2)) st"
    by (simp add: lualdap_add_def del: A_tab2mod.simps)
  with 3 show ?thesis by blast
qed

lemma next_message_entry:
  assumes u: "lua_touserdata (arg ups 1) = Some p"
    and s: "heap st p = Some (USearch s)"
    and op: "conn s \<noteq> LUA_NOREF"
    and r: "registry st (conn s) = Some (LUserdata q)"
    and c: "heap st q = Some (UConn c)"
  shows "fst (next_message E \<lparr>p_rc = LDAP_RES_SEARCH_ENTRY, p_res = entry_of dn ms\<rparr> st ups)
           = Inr [LString dn, LTable (set_attribs (entry_of dn ms) [])]"
  using assms
  by (simp add: next_message_def Let_def LDAP_RES_SEARCH_ENTRY_def LDAP_RES_SEARCH_RESULT_def
      push_dn_def entry_of_def)

end
